theory Spec2Isabelle
  imports Complex_Main "HOL-Library.AList"
begin

section \<open>Errors and numeric helpers\<close>

text \<open>
  The Python exceptions that the modelled code can raise. Floating-point numbers
  (numpy float64, torch float32) are idealised as exact reals throughout.
\<close>

datatype error =
    IndexError          \<comment> \<open>an index out of range\<close>
  | ShapeMismatch       \<comment> \<open>numpy's ValueError or torch's RuntimeError for operands of different shapes\<close>
  | ZeroDivisionError
  | InsufficientData    \<comment> \<open>the ValueError of \<open>np.random.choice(.., replace=False)\<close> for a sample
                            larger than the population\<close>

definition bind_err :: "error + 'a \<Rightarrow> ('a \<Rightarrow> error + 'b) \<Rightarrow> error + 'b" where
  "bind_err r f = (case r of Inl e \<Rightarrow> Inl e | Inr v \<Rightarrow> f v)"

text \<open>\<open>np.dot\<close> of two one-dimensional arrays: a shape mismatch raises.\<close>

definition np_dot :: "real list \<Rightarrow> real list \<Rightarrow> error + real" where
  "np_dot ws xs =
     (if length ws \<noteq> length xs then Inl ShapeMismatch
      else Inr (sum_list (map2 (*) ws xs)))"

text \<open>\<open>int(condition)\<close> and the comparison of a Python bool with a number.\<close>

definition int_of_bool :: "bool \<Rightarrow> int" where
  "int_of_bool b = (if b then 1 else 0)"

section \<open>TruePerceptron\<close>

record true_perceptron =
  tp_n :: nat
  tp_eta :: real
  tp_weights :: "real list"

definition TruePerceptron :: "nat \<Rightarrow> real \<Rightarrow> true_perceptron" where
  "TruePerceptron n eta = \<lparr>tp_n = n, tp_eta = eta, tp_weights = replicate (n + 1) 0\<rparr>"

text \<open>\<open>predict\<close>: \<open>np.dot(self.weights[:self.n], X) + self.weights[self.n]\<close>.\<close>

definition tp_predict :: "true_perceptron \<Rightarrow> real list \<Rightarrow> error + real" where
  "tp_predict p X =
     bind_err (np_dot (take (tp_n p) (tp_weights p)) X) (\<lambda>d.
       if tp_n p < length (tp_weights p) then Inr (d + tp_weights p ! tp_n p)
       else Inl IndexError)"

definition tp_x_scale :: "real list \<Rightarrow> real list" where
  "tp_x_scale X = map (\<lambda>v. 2 * v - 1) X"

definition tp_y_scale :: "int \<Rightarrow> int" where
  "tp_y_scale y = 2 * y - 1"

text \<open>
  The in-place update of the misprediction branch:
  \<open>weights[:n] += eta * y_scale * x_scale; weights[n] += eta * y_scale\<close>.
\<close>

definition tp_adjust :: "true_perceptron \<Rightarrow> real list \<Rightarrow> int \<Rightarrow> true_perceptron" where
  "tp_adjust p xs ys =
     (let n = tp_n p; w = tp_weights p;
          w1 = map2 (+) (take n w) (map (\<lambda>v. tp_eta p * of_int ys * v) xs) @ drop n w;
          w2 = w1[n := w1 ! n + tp_eta p * of_int ys]
      in p\<lparr>tp_weights := w2\<rparr>)"

definition tp_predict_and_update ::
  "true_perceptron \<Rightarrow> real list \<Rightarrow> int \<Rightarrow> error + (true_perceptron \<times> real)" where
  "tp_predict_and_update p X y =
     (let x_scale = tp_x_scale X; y_scale = tp_y_scale y
      in bind_err (tp_predict p x_scale) (\<lambda>score.
           let pred = sgn score;
               p' = (if pred \<noteq> of_int y_scale then tp_adjust p x_scale y_scale else p)
           in Inr (p', (sgn pred + 1) / 2)))"

section \<open>ClassicalPerceptron and its SGD optimizer\<close>

text \<open>
  \<open>ClassicalPerceptron(n)\<close> is one \<open>nn.Linear(n, 1)\<close> layer. The record holds its weight
  row and bias, each with the \<open>.grad\<close> buffer that \<open>backward\<close> accumulates into and
  \<open>optim.SGD(lr=1e-3)\<close> reads. The values torch's random initialiser draws are the
  arguments \<open>w0\<close> (weight of input \<open>i\<close>) and \<open>b0\<close>.
\<close>

record net =
  fc1_weight :: "real list"
  fc1_bias :: real
  grad_weight :: "real list"
  grad_bias :: real

definition ClassicalPerceptron :: "nat \<Rightarrow> (nat \<Rightarrow> real) \<Rightarrow> real \<Rightarrow> net" where
  "ClassicalPerceptron n w0 b0 =
     \<lparr>fc1_weight = map w0 [0..<n], fc1_bias = b0,
      grad_weight = replicate n 0, grad_bias = 0\<rparr>"

definition forward :: "net \<Rightarrow> real list \<Rightarrow> error + real" where
  "forward nt x =
     (if length x \<noteq> length (fc1_weight nt) then Inl ShapeMismatch
      else Inr (sum_list (map2 (*) (fc1_weight nt) x) + fc1_bias nt))"

definition zero_grad :: "net \<Rightarrow> net" where
  "zero_grad nt = nt\<lparr>grad_weight := replicate (length (fc1_weight nt)) 0, grad_bias := 0\<rparr>"

definition lr :: real where
  "lr = 1 / 1000"

definition sgd_step :: "net \<Rightarrow> net" where
  "sgd_step nt =
     nt\<lparr>fc1_weight := map2 (\<lambda>w g. w - lr * g) (fc1_weight nt) (grad_weight nt),
        fc1_bias := fc1_bias nt - lr * grad_bias nt\<rparr>"

text \<open>
  \<open>backward\<close> of a loss whose derivative with respect to the score of input \<open>x\<close> is
  \<open>g\<close>: the gradient \<open>g * x\<close> (for the bias, \<open>g\<close>) is added to the buffers. For
  \<open>torch.abs(pred - y)\<close> the derivative is \<open>sgn (pred - y)\<close>.
\<close>

definition backward :: "net \<Rightarrow> real list \<Rightarrow> real \<Rightarrow> net" where
  "backward nt x g =
     nt\<lparr>grad_weight := map2 (+) (grad_weight nt) (map (\<lambda>v. g * v) x),
        grad_bias := grad_bias nt + g\<rparr>"

section \<open>BpPerceptron\<close>

record bp_perceptron =
  bp_net :: net

definition BpPerceptron :: "(nat \<Rightarrow> real) \<Rightarrow> real \<Rightarrow> nat \<Rightarrow> bp_perceptron" where
  "BpPerceptron w0 b0 n = \<lparr>bp_net = ClassicalPerceptron n w0 b0\<rparr>"

definition bp_predict_and_update ::
  "bp_perceptron \<Rightarrow> real list \<Rightarrow> int \<Rightarrow> error + (bp_perceptron \<times> real)" where
  "bp_predict_and_update p X y =
     (let nt0 = zero_grad (bp_net p)
      in bind_err (forward nt0 X) (\<lambda>pred.
           let nt1 = backward nt0 X (sgn (pred - of_int y));
               nt2 = sgd_step nt1
           in Inr (p\<lparr>bp_net := nt2\<rparr>, if pred > 1 / 2 then 1 else 0)))"

section \<open>BpLambdaPerceptron\<close>

text \<open>
  \<open>rng\<close> is the state of numpy's global generator, and \<open>rounds\<close> is a ghost field that
  counts the calls of \<open>learning_round\<close>: the source has no such field and nothing in
  the model reads it. The sampler \<open>np.random.choice(np.arange(m), size=k, replace=False)\<close>
  is the parameter \<open>choice\<close>: from a generator state, \<open>m\<close> and \<open>k\<close> it gives the
  indices drawn and the next state.
\<close>

record bp_lambda_perceptron =
  lp_net :: net
  example_history_x :: "real list list"
  example_history_y :: "int list"
  lamb :: real
  bs :: nat
  rng :: nat
  rounds :: nat

type_synonym sampler = "nat \<Rightarrow> nat \<Rightarrow> nat \<Rightarrow> nat list \<times> nat"

definition BpLambdaPerceptron ::
  "(nat \<Rightarrow> real) \<Rightarrow> real \<Rightarrow> nat \<Rightarrow> real \<Rightarrow> nat \<Rightarrow> bp_lambda_perceptron" where
  "BpLambdaPerceptron w0 b0 seed lam n =
     \<lparr>lp_net = ClassicalPerceptron n w0 b0,
      example_history_x = [], example_history_y = [],
      lamb = lam, bs = 16, rng = seed, rounds = 0\<rparr>"

text \<open>\<open>list.index\<close>: the position of the first element equal to \<open>x\<close>.\<close>

fun list_index :: "'a list \<Rightarrow> 'a \<Rightarrow> nat" where
  "list_index [] x = 0"
| "list_index (a # as) x = (if a = x then 0 else Suc (list_index as x))"

fun forward_all :: "net \<Rightarrow> real list list \<Rightarrow> error + real list" where
  "forward_all nt [] = Inr []"
| "forward_all nt (x # xs) =
     bind_err (forward nt x) (\<lambda>v. bind_err (forward_all nt xs) (\<lambda>vs. Inr (v # vs)))"

text \<open>
  \<open>backward\<close> of \<open>torch.mean(torch.abs(preds - batch_y))\<close> over a batch of \<open>k\<close>
  examples: each example contributes the derivative \<open>sgn (pred - y) / k\<close>. In
  \<open>learning_round\<close> the values \<open>preval\<close> and \<open>lambda_term\<close> are computed and not
  used (the mask that read them is commented out), so the model leaves them out.
\<close>

fun backward_batch :: "net \<Rightarrow> real \<Rightarrow> (real list \<times> real \<times> real) list \<Rightarrow> net" where
  "backward_batch nt k [] = nt"
| "backward_batch nt k ((x, pred, y) # rest) =
     backward_batch (backward nt x (sgn (pred - y) / k)) k rest"

definition learning_round :: "sampler \<Rightarrow> bp_lambda_perceptron \<Rightarrow> error + bp_lambda_perceptron" where
  "learning_round choice p =
     (let nt0 = zero_grad (lp_net p);
          hx = example_history_x p; hy = example_history_y p
      in if length hx < bs p then Inl InsufficientData
         else
           let (rand_idxs, r') = choice (rng p) (length hx) (bs p)
           in if \<not> list_all (\<lambda>x. length x = length (hd hx)) hx then Inl ShapeMismatch
              else if \<not> list_all (\<lambda>i. i < length hx) rand_idxs then Inl IndexError
              else if \<not> list_all (\<lambda>i. i < length hy) rand_idxs then Inl IndexError
              else
                let batch_x = map (\<lambda>i. hx ! i) rand_idxs;
                    batch_y = map (\<lambda>i. of_int (hy ! i)) rand_idxs
                in bind_err (forward_all nt0 batch_x) (\<lambda>preds.
                     let nt1 = backward_batch nt0 (of_nat (length rand_idxs))
                                 (zip batch_x (zip preds batch_y));
                         nt2 = sgd_step nt1
                     in Inr (p\<lparr>lp_net := nt2, rng := r', rounds := rounds p + 1\<rparr>)))"

text \<open>The margin term of \<open>predict_and_update\<close>, looked up in the replay buffer.\<close>

definition lambda_term_of :: "bp_lambda_perceptron \<Rightarrow> real list \<Rightarrow> error + real" where
  "lambda_term_of p X =
     (if X \<in> set (example_history_x p) then
        (let i = list_index (example_history_x p) X
         in if i < length (example_history_y p)
            then Inr (lamb p * sum_list (map (\<lambda>v. v ^ 2) X)
                        * of_int (2 * (example_history_y p ! i) - 1))
            else Inl IndexError)
      else Inr 0)"

text \<open>The count trigger: \<open>(len(self.example_history_x) + 1) % (self.bs + 1) == 0\<close>.\<close>

definition count_trigger :: "bp_lambda_perceptron \<Rightarrow> bool" where
  "count_trigger p = ((length (example_history_x p) + 1) mod (bs p + 1) = 0)"

definition lp_predict_and_update ::
  "sampler \<Rightarrow> bp_lambda_perceptron \<Rightarrow> real list \<Rightarrow> int \<Rightarrow> error + (bp_lambda_perceptron \<times> real)" where
  "lp_predict_and_update choice p X y =
     (let p0 = p\<lparr>lp_net := zero_grad (lp_net p)\<rparr>
      in bind_err (lambda_term_of p0 X) (\<lambda>lambda_term.
         bind_err (forward (lp_net p0) X) (\<lambda>pred.
         bind_err (if count_trigger p0 then learning_round choice p0 else Inr p0) (\<lambda>p1.
           let p2 = p1\<lparr>lp_net := sgd_step (backward (lp_net p1) X (sgn (pred - of_int y)))\<rparr>;
               decision = (if pred + lambda_term > 1 / 2 then 1 else 0);
               p3 = (if decision \<noteq> y
                     then p2\<lparr>example_history_x := example_history_x p2 @ [X],
                             example_history_y := example_history_y p2 @ [y]\<rparr>
                     else p2)
           in Inr (p3, of_int decision)))))"

section \<open>BranchPredictor\<close>

text \<open>
  The counters are \<open>defaultdict\<close>s, read with their default; the table of perceptrons
  is a \<open>defaultdict\<close> whose keys are iterated, so it is an association list in
  insertion order together with the value its factory builds. Tags are strings; the
  optional tag is \<open>None\<close> when the caller gives none.
\<close>

record 'p branch_predictor =
  global_history :: "real list"
  total :: "string \<Rightarrow> int"
  correct :: "string \<Rightarrow> int"
  moving_accuracy :: "string \<Rightarrow> real"
  taken_history :: "string \<Rightarrow> int list"
  prediction_history :: "string \<Rightarrow> int list"
  perceptrons :: "(string \<times> 'p) list"
  perceptron_factory :: "'p"

definition BranchPredictor :: "nat \<Rightarrow> (nat \<Rightarrow> 'p) \<Rightarrow> 'p branch_predictor" where
  "BranchPredictor n preceptron =
     \<lparr>global_history = replicate n 0,
      total = (\<lambda>_. 0), correct = (\<lambda>_. 0), moving_accuracy = (\<lambda>_. 0),
      taken_history = (\<lambda>_. []), prediction_history = (\<lambda>_. []),
      perceptrons = [], perceptron_factory = preceptron n\<rparr>"

text \<open>\<open>np.roll(h, 1)\<close>: every element moves one place up, the last one wraps to index 0.\<close>

definition np_roll1 :: "'a list \<Rightarrow> 'a list" where
  "np_roll1 h = (if h = [] then [] else last h # butlast h)"

definition update_history :: "'p branch_predictor \<Rightarrow> bool \<Rightarrow> error + 'p branch_predictor" where
  "update_history s condition =
     (let h = np_roll1 (global_history s)
      in if h = [] then Inl IndexError
         else Inr (s\<lparr>global_history := h[0 := (if condition then 1 else 0)]\<rparr>))"

text \<open>The test \<open>if tag:\<close> is Python truthiness: \<open>None\<close> and the empty string are false.\<close>

fun truthy :: "string option \<Rightarrow> bool" where
  "truthy None = False"
| "truthy (Some t) = (t \<noteq> [])"

text \<open>\<open>self.perceptrons[tag]\<close>: a missing key is first filled by the factory.\<close>

definition get_perceptron :: "'p branch_predictor \<Rightarrow> string \<Rightarrow> 'p" where
  "get_perceptron s t =
     (case map_of (perceptrons s) t of None \<Rightarrow> perceptron_factory s | Some p \<Rightarrow> p)"

definition record_stats :: "'p branch_predictor \<Rightarrow> string \<Rightarrow> bool \<Rightarrow> real \<Rightarrow> 'p branch_predictor" where
  "record_stats s t condition p =
     (let s1 = s\<lparr>moving_accuracy := (moving_accuracy s)(t := moving_accuracy s t * (9 / 10))\<rparr>;
          s2 = s1\<lparr>taken_history := (taken_history s1)(t := taken_history s1 t @ [if condition then 1 else 0])\<rparr>;
          s3 = s2\<lparr>prediction_history :=
                    (prediction_history s2)(t := prediction_history s2 t @ [if p \<noteq> 0 then 1 else 0])\<rparr>
      in if of_int (int_of_bool condition) = p
         then s3\<lparr>correct := (correct s3)(t := correct s3 t + 1),
                 moving_accuracy := (moving_accuracy s3)(t := moving_accuracy s3 t + 1 / 10)\<rparr>
         else s3)"

text \<open>
  \<open>BranchPredictor.__call__\<close>; \<open>pau\<close> is the \<open>predict_and_update\<close> method of the
  perceptron class the predictor was built with.
\<close>

definition call ::
  "('p \<Rightarrow> real list \<Rightarrow> int \<Rightarrow> error + ('p \<times> real)) \<Rightarrow> 'p branch_predictor \<Rightarrow> bool \<Rightarrow>
     string option \<Rightarrow> error + ('p branch_predictor \<times> bool)" where
  "call pau s condition tag =
     bind_err
       (if truthy tag then
          (let t = the tag;
               s1 = s\<lparr>total := (total s)(t := total s t + 1)\<rparr>
           in bind_err (pau (get_perceptron s1 t) (global_history s1) (int_of_bool condition))
                (\<lambda>(perc, p).
                   Inr (record_stats (s1\<lparr>perceptrons := AList.update t perc (perceptrons s1)\<rparr>)
                          t condition p)))
        else Inr s)
       (\<lambda>s'. bind_err (update_history s' condition) (\<lambda>s''. Inr (s'', condition)))"

text \<open>A sequence of calls, as a driver makes them; the first error ends it.\<close>

fun run ::
  "('p \<Rightarrow> real list \<Rightarrow> int \<Rightarrow> error + ('p \<times> real)) \<Rightarrow> 'p branch_predictor \<Rightarrow>
     (bool \<times> string option) list \<Rightarrow> error + 'p branch_predictor" where
  "run pau s [] = Inr s"
| "run pau s ((condition, tag) # rest) =
     bind_err (call pau s condition tag) (\<lambda>(s', _). run pau s' rest)"

text \<open>
  \<open>get_accuracies\<close>: the loop over the keys of \<open>self.perceptrons\<close>, with Python's true
  division, which raises on a zero divisor.
\<close>

fun accuracies_loop ::
  "'p branch_predictor \<Rightarrow> string list \<Rightarrow> (string \<times> real) list \<Rightarrow> error + (string \<times> real) list" where
  "accuracies_loop s [] acc = Inr acc"
| "accuracies_loop s (key # keys) acc =
     (if total s key = 0 then Inl ZeroDivisionError
      else accuracies_loop s keys
             (AList.update key (of_int (correct s key) / of_int (total s key)) acc))"

definition get_accuracies ::
  "'p branch_predictor \<Rightarrow> error + ((string \<times> real) list \<times> (string \<Rightarrow> real))" where
  "get_accuracies s =
     bind_err (accuracies_loop s (map fst (perceptrons s)) [])
       (\<lambda>acc. Inr (acc, moving_accuracy s))"

section \<open>Well-formed states\<close>

text \<open>
  A perceptron class is sound for history length \<open>n\<close> under an invariant \<open>I\<close> of its
  instances when \<open>predict_and_update\<close> returns on every instance satisfying \<open>I\<close> and
  every feature vector of length \<open>n\<close>, and keeps \<open>I\<close>.
\<close>

definition sound_class ::
  "('p \<Rightarrow> bool) \<Rightarrow> nat \<Rightarrow> ('p \<Rightarrow> real list \<Rightarrow> int \<Rightarrow> error + ('p \<times> real)) \<Rightarrow> bool" where
  "sound_class I n pau =
     (\<forall>p X y. I p \<and> length X = n \<longrightarrow> (\<exists>p' d. pau p X y = Inr (p', d) \<and> I p'))"

definition bp_inv :: "('p \<Rightarrow> bool) \<Rightarrow> nat \<Rightarrow> 'p branch_predictor \<Rightarrow> bool" where
  "bp_inv I n s =
     (0 < n \<and> length (global_history s) = n \<and> I (perceptron_factory s) \<and>
      (\<forall>p \<in> snd ` set (perceptrons s). I p))"

definition tp_ok :: "nat \<Rightarrow> true_perceptron \<Rightarrow> bool" where
  "tp_ok n p = (tp_n p = n \<and> length (tp_weights p) = n + 1)"

text \<open>The value \<open>update_history\<close> writes at index 0.\<close>

definition bit_of :: "bool \<Rightarrow> real" where
  "bit_of b = (if b then 1 else 0)"

section \<open>Sequences of updates and invariants of the perceptron classes\<close>

text \<open>The number of calls in a sequence that are given the tag \<open>t\<close>, whatever \<open>t\<close> is.\<close>

definition tagged_calls :: "string \<Rightarrow> (bool \<times> string option) list \<Rightarrow> nat" where
  "tagged_calls t obs = length (filter (\<lambda>ob. snd ob = Some t) obs)"

text \<open>
  The number of calls in a sequence that are given the tag \<open>t\<close> and pass the guard
  \<open>if tag:\<close>: the calls in which the code counts an observation of \<open>t\<close>.
\<close>

definition counted_calls :: "string \<Rightarrow> (bool \<times> string option) list \<Rightarrow> nat" where
  "counted_calls t obs = length (filter (\<lambda>ob. truthy (snd ob) \<and> snd ob = Some t) obs)"

text \<open>
  A sequence of updates of one BpLambdaPerceptron; the result lists, for every update,
  the perceptron after it and the decision it returned.
\<close>

fun lp_run ::
  "sampler \<Rightarrow> bp_lambda_perceptron \<Rightarrow> (real list \<times> int) list \<Rightarrow>
     error + (bp_lambda_perceptron \<times> real) list" where
  "lp_run choice p [] = Inr []"
| "lp_run choice p ((X, y) # rest) =
     bind_err (lp_predict_and_update choice p X y) (\<lambda>(p', d).
       bind_err (lp_run choice p' rest) (\<lambda>res. Inr ((p', d) # res)))"

text \<open>
  The number of rounds that fire in \<open>m\<close> updates that all append to a buffer of
  \<open>l\<close> examples, for batch size \<open>b\<close>.
\<close>

fun count_fires :: "nat \<Rightarrow> nat \<Rightarrow> nat \<Rightarrow> nat" where
  "count_fires l b 0 = 0"
| "count_fires l b (Suc m) = (if (l + 1) mod (b + 1) = 0 then 1 else 0) + count_fires (l + 1) b m"

text \<open>
  The invariants of the two torch perceptrons: the layer has one weight per feature,
  and the replay buffer holds as many labels as feature vectors, each of length \<open>n\<close>.
\<close>

definition bp_ok :: "nat \<Rightarrow> bp_perceptron \<Rightarrow> bool" where
  "bp_ok n p = (length (fc1_weight (bp_net p)) = n)"

definition lp_ok :: "nat \<Rightarrow> bp_lambda_perceptron \<Rightarrow> bool" where
  "lp_ok n p =
     (length (fc1_weight (lp_net p)) = n
      \<and> length (example_history_x p) = length (example_history_y p)
      \<and> list_all (\<lambda>x. length x = n) (example_history_x p))"

text \<open>What numpy guarantees of the sampler: the indices drawn are below the population size.\<close>

definition valid_sampler :: "sampler \<Rightarrow> bool" where
  "valid_sampler choice = (\<forall>r m k. k \<le> m \<longrightarrow> list_all (\<lambda>i. i < m) (fst (choice r m k)))"

text \<open>
  No counter is negative and every key of the perceptron table has been observed at
  least once. This holds in every state reached by calls from a fresh predictor.
\<close>

definition observed_keys :: "'p branch_predictor \<Rightarrow> bool" where
  "observed_keys s =
     ((\<forall>t. 0 \<le> total s t) \<and> (\<forall>k \<in> fst ` set (perceptrons s). 0 < total s k))"

section \<open>Example states\<close>

text \<open>A fresh predictor of history length 2 over TruePerceptrons with \<open>eta = 1\<close>.\<close>

definition example_predictor :: "true_perceptron branch_predictor" where
  "example_predictor = BranchPredictor 2 (\<lambda>n. TruePerceptron n 1)"

text \<open>
  A table with the key \<open>a\<close> and no observation counted for it, and the same table
  with 3 hits in 4 observations.
\<close>

definition unobserved_state :: "true_perceptron branch_predictor" where
  "unobserved_state =
     (BranchPredictor 2 (\<lambda>n. TruePerceptron n 1))\<lparr>perceptrons := [(''a'', TruePerceptron 2 1)]\<rparr>"

definition observed_state :: "true_perceptron branch_predictor" where
  "observed_state = unobserved_state\<lparr>total := (\<lambda>_. 4), correct := (\<lambda>_. 3)\<rparr>"

text \<open>
  A sampler that draws the first \<open>k\<close> indices, and a layer initialised to zero.
  \<open>warm k\<close> is the BpLambdaPerceptron for one feature, \<open>lamb = 1\<close>, after \<open>k \<le> 16\<close>
  updates with feature vector \<open>[0]\<close> and label 1, each mispredicted: the bias has
  grown by \<open>lr\<close> in each. \<open>warm_final\<close> is the state after the 17th such update, in
  which a round ran, and \<open>warm_res k m\<close> lists the results of \<open>m\<close> further updates
  from \<open>warm k\<close>.
\<close>

definition first_indices :: sampler where
  "first_indices r m k = ([0..<k], r + 1)"

definition zero_weight :: "nat \<Rightarrow> real" where
  "zero_weight i = 0"

definition warm :: "nat \<Rightarrow> bp_lambda_perceptron" where
  "warm k =
     \<lparr>lp_net = \<lparr>fc1_weight = [0], fc1_bias = of_nat k / 1000, grad_weight = [0],
                grad_bias = (if k = 0 then 0 else - 1)\<rparr>,
      example_history_x = replicate k [0], example_history_y = replicate k 1,
      lamb = 1, bs = 16, rng = 0, rounds = 0\<rparr>"

definition warm_final :: bp_lambda_perceptron where
  "warm_final =
     \<lparr>lp_net = \<lparr>fc1_weight = [0], fc1_bias = 19 / 1000, grad_weight = [0], grad_bias = - 2\<rparr>,
      example_history_x = replicate 17 [0], example_history_y = replicate 17 1,
      lamb = 1, bs = 16, rng = 1, rounds = 1\<rparr>"

fun warm_res :: "nat \<Rightarrow> nat \<Rightarrow> (bp_lambda_perceptron \<times> real) list" where
  "warm_res k 0 = []"
| "warm_res k (Suc m) = (if k < 16 then (warm (Suc k), 0) else (warm_final, 0)) # warm_res (Suc k) m"

section \<open>Basic facts\<close>

lemma bind_err_simps [simp]:
  "bind_err (Inl e) f = Inl e"
  "bind_err (Inr v) f = f v"
  by (simp_all add: bind_err_def)

lemma np_roll1_length [simp]: "length (np_roll1 h) = length h"
  by (cases h rule: rev_cases) (simp_all add: np_roll1_def)

lemma update_history_push:
  "global_history s \<noteq> [] \<Longrightarrow>
   update_history s c = Inr (s\<lparr>global_history := bit_of c # butlast (global_history s)\<rparr>)"
  by (simp add: update_history_def np_roll1_def bit_of_def)

lemma update_history_empty:
  "global_history s = [] \<Longrightarrow> update_history s c = Inl IndexError"
  by (simp add: update_history_def np_roll1_def)

lemma get_perceptron_total [simp]:
  "get_perceptron (s\<lparr>total := f\<rparr>) t = get_perceptron s t"
  by (simp add: get_perceptron_def split: option.splits)

lemma record_stats_fields [simp]:
  "global_history (record_stats s t c p) = global_history s"
  "perceptrons (record_stats s t c p) = perceptrons s"
  "perceptron_factory (record_stats s t c p) = perceptron_factory s"
  "total (record_stats s t c p) = total s"
  by (simp_all add: record_stats_def Let_def)

lemma call_untagged:
  "\<not> truthy tag \<Longrightarrow> call pau s c tag = bind_err (update_history s c) (\<lambda>s''. Inr (s'', c))"
  by (simp add: call_def)

lemma call_tagged_ok:
  assumes "truthy tag" and "pau (get_perceptron s (the tag)) (global_history s) (int_of_bool c) = Inr (perc, d)"
  shows "call pau s c tag =
           bind_err (update_history
                       (record_stats (s\<lparr>total := (total s)((the tag) := total s (the tag) + 1),
                                        perceptrons := AList.update (the tag) perc (perceptrons s)\<rparr>)
                          (the tag) c d) c)
             (\<lambda>s''. Inr (s'', c))"
  using assms by (simp add: call_def Let_def)

lemma call_tagged_err:
  assumes "truthy tag" and "pau (get_perceptron s (the tag)) (global_history s) (int_of_bool c) = Inl e"
  shows "call pau s c tag = Inl e"
  using assms by (simp add: call_def Let_def)

lemma get_perceptron_inv: "bp_inv I n s \<Longrightarrow> I (get_perceptron s t)"
  by (auto simp: bp_inv_def get_perceptron_def split: option.splits dest!: map_of_SomeD intro: rev_image_eqI)

lemma set_update_snd: "snd ` set (AList.update k v al) \<subseteq> insert v (snd ` set al)"
  by (induction al) (auto)

lemma update_all_snd:
  "\<forall>p \<in> snd ` set al. I p \<Longrightarrow> I v \<Longrightarrow> \<forall>p \<in> snd ` set (AList.update k v al). I p"
  using set_update_snd[of k v al] by blast

lemma call_inv:
  assumes snd: "sound_class I n pau" and inv: "bp_inv I n s"
  shows "\<exists>s'. call pau s c tag = Inr (s', c) \<and> bp_inv I n s'
              \<and> global_history s' = bit_of c # butlast (global_history s)"
proof (cases "truthy tag")
  case False
  from inv have ne: "global_history s \<noteq> []" by (auto simp: bp_inv_def)
  show ?thesis using False inv ne
    by (cases "global_history s" rule: rev_cases) (auto simp add: call_untagged update_history_push bp_inv_def)
next
  case True
  from inv have len: "length (global_history s) = n" and ne: "global_history s \<noteq> []"
    by (auto simp: bp_inv_def)
  from snd get_perceptron_inv[OF inv] len obtain perc d where
    pau: "pau (get_perceptron s (the tag)) (global_history s) (int_of_bool c) = Inr (perc, d)"
    and I: "I perc"
    unfolding sound_class_def by blast
  let ?s1 = "record_stats (s\<lparr>total := (total s)((the tag) := total s (the tag) + 1),
                                        perceptrons := AList.update (the tag) perc (perceptrons s)\<rparr>)
                          (the tag) c d"
  have ne1: "global_history ?s1 \<noteq> []" using ne by simp
  have "bp_inv I n (?s1\<lparr>global_history := bit_of c # butlast (global_history ?s1)\<rparr>)"
  proof -
    from inv have "\<forall>p \<in> snd ` set (perceptrons s). I p" by (simp add: bp_inv_def)
    from update_all_snd[OF this I, of "the tag"] inv ne show ?thesis
      by (cases "global_history s" rule: rev_cases) (simp_all add: bp_inv_def)
  qed
  then show ?thesis
    using call_tagged_ok[of tag pau s c perc d, OF True pau] update_history_push[OF ne1] by simp
qed

lemma np_dot_ok: "length ws = length xs \<Longrightarrow> np_dot ws xs = Inr (sum_list (map2 (*) ws xs))"
  by (simp add: np_dot_def)

lemma tp_predict_ok:
  "tp_ok n p \<Longrightarrow> length X = n \<Longrightarrow>
   tp_predict p X = Inr (sum_list (map2 (*) (take n (tp_weights p)) X) + tp_weights p ! n)"
  by (simp add: tp_predict_def tp_ok_def np_dot_def)

lemma tp_adjust_ok: "tp_ok n p \<Longrightarrow> length xs = n \<Longrightarrow> tp_ok n (tp_adjust p xs ys)"
  by (simp add: tp_adjust_def tp_ok_def Let_def)

lemma tp_pau_eq:
  assumes "tp_ok n p" "length X = n"
  shows "tp_predict_and_update p X y =
           Inr (if sgn (sum_list (map2 (*) (take n (tp_weights p)) (tp_x_scale X)) + tp_weights p ! n)
                     \<noteq> of_int (tp_y_scale y)
                then tp_adjust p (tp_x_scale X) (tp_y_scale y) else p,
                (sgn (sum_list (map2 (*) (take n (tp_weights p)) (tp_x_scale X)) + tp_weights p ! n) + 1) / 2)"
proof -
  have "length (tp_x_scale X) = n" using assms by (simp add: tp_x_scale_def)
  from tp_predict_ok[OF assms(1) this] show ?thesis
    by (simp add: tp_predict_and_update_def Let_def)
qed

lemma tp_pau_ok:
  assumes "tp_ok n p" "length X = n"
  shows "\<exists>p' d. tp_predict_and_update p X y = Inr (p', d) \<and> tp_ok n p'"
proof -
  have "length (tp_x_scale X) = n" using assms by (simp add: tp_x_scale_def)
  from tp_adjust_ok[OF assms(1) this] assms(1)
  have "tp_ok n (if sgn (sum_list (map2 (*) (take n (tp_weights p)) (tp_x_scale X)) + tp_weights p ! n)
                     \<noteq> of_int (tp_y_scale y)
                then tp_adjust p (tp_x_scale X) (tp_y_scale y) else p)"
    by simp
  then show ?thesis unfolding tp_pau_eq[OF assms] by blast
qed

lemma tp_sound: "sound_class (tp_ok n) n tp_predict_and_update"
  unfolding sound_class_def using tp_pau_ok by blast

lemma TruePerceptron_ok: "tp_ok n (TruePerceptron n eta)"
  by (simp add: tp_ok_def TruePerceptron_def)

lemma BranchPredictor_inv: "0 < n \<Longrightarrow> I (mk n) \<Longrightarrow> bp_inv I n (BranchPredictor n mk)"
  by (simp add: bp_inv_def BranchPredictor_def)

lemma take_Cons_take: "m \<le> Suc k \<Longrightarrow> take m (a # take k h) = take m (a # h)"
  by (cases m) simp_all

lemma run_inv:
  assumes snd: "sound_class I n pau"
  shows "bp_inv I n s \<Longrightarrow>
         \<exists>s'. run pau s obs = Inr s' \<and> bp_inv I n s' \<and>
              global_history s' = take n (rev (map (\<lambda>ob. bit_of (fst ob)) obs) @ global_history s)"
proof (induction obs arbitrary: s)
  case Nil
  then show ?case by (simp add: bp_inv_def)
next
  case (Cons ob obs)
  obtain c tag where ob: "ob = (c, tag)" by (cases ob)
  from call_inv[OF snd Cons.prems, of c tag] obtain s1 where
    c1: "call pau s c tag = Inr (s1, c)" and i1: "bp_inv I n s1"
    and h1: "global_history s1 = bit_of c # butlast (global_history s)" by blast
  from Cons.IH[OF i1] obtain s' where
    r: "run pau s1 obs = Inr s'" and i': "bp_inv I n s'"
    and h': "global_history s' = take n (rev (map (\<lambda>ob. bit_of (fst ob)) obs) @ global_history s1)" by blast
  from Cons.prems have len: "length (global_history s) = n" "0 < n" by (auto simp: bp_inv_def)
  have "take n (rev (map (\<lambda>ob. bit_of (fst ob)) obs) @ bit_of c # butlast (global_history s))
        = take n ((rev (map (\<lambda>ob. bit_of (fst ob)) obs) @ [bit_of c]) @ global_history s)"
    using len by (simp add: butlast_conv_take take_Cons_take)
  then show ?case using ob c1 r i' h' h1 by simp
qed

text \<open>
  What \<open>TruePerceptron.predict_and_update\<close> computes: for a perceptron of size \<open>n\<close> with \<open>n + 1\<close>
  weights and a feature vector of length \<open>n\<close>, \<open>predict_and_update\<close> returns; with
  \<open>pred\<close> the sign of the scaled score, the weights and the bias change by
  \<open>eta * y_scaled * x_scaled\<close> and \<open>eta * y_scaled\<close> exactly when \<open>pred\<close> differs from
  \<open>y_scaled\<close>; the value returned is \<open>(pred + 1) / 2\<close>, which is 0 or 1 when the score
  is not zero and \<open>1/2\<close> when the score is zero.
\<close>

lemma tp_predict_and_update_spec:
  assumes "tp_ok n p" and "length X = n"
  shows "let xs = map (\<lambda>v. 2 * v - 1) X;
             ys = 2 * y - 1;
             score = sum_list (map2 (*) (take n (tp_weights p)) xs) + tp_weights p ! n;
             pred = sgn score
         in \<exists>p'. tp_predict_and_update p X y = Inr (p', (pred + 1) / 2)
           \<and> tp_n p' = tp_n p \<and> tp_eta p' = tp_eta p
           \<and> length (tp_weights p') = n + 1
           \<and> (pred \<noteq> of_int ys \<longrightarrow>
                 (\<forall>i<n. tp_weights p' ! i = tp_weights p ! i + tp_eta p * of_int ys * (xs ! i))
                 \<and> tp_weights p' ! n = tp_weights p ! n + tp_eta p * of_int ys)
           \<and> (pred = of_int ys \<longrightarrow> p' = p)
           \<and> (pred + 1) / 2 \<in> {0, 1 / 2, 1}
           \<and> ((pred + 1) / 2 \<in> {0, 1} \<longleftrightarrow> score \<noteq> 0)"
proof -
  define xs where "xs = map (\<lambda>v. 2 * v - 1) X"
  define ys where "ys = 2 * y - 1"
  define score where "score = sum_list (map2 (*) (take n (tp_weights p)) xs) + tp_weights p ! n"
  define pred where "pred = sgn score"
  have lx: "length xs = n" using assms(2) by (simp add: xs_def)
  have lw: "length (tp_weights p) = n + 1" "tp_n p = n" using assms(1) by (simp_all add: tp_ok_def)
  have eq: "tp_predict_and_update p X y =
          Inr (if pred \<noteq> of_int ys then tp_adjust p xs ys else p, (pred + 1) / 2)"
    using tp_pau_eq[OF assms(1,2), of y]
    by (simp add: pred_def score_def xs_def ys_def tp_x_scale_def tp_y_scale_def)
  have adj_i: "tp_weights (tp_adjust p xs ys) ! i = tp_weights p ! i + tp_eta p * of_int ys * (xs ! i)"
    if "i < n" for i
    using that lx lw by (simp add: tp_adjust_def Let_def nth_append)
  have adj_n: "tp_weights (tp_adjust p xs ys) ! n = tp_weights p ! n + tp_eta p * of_int ys"
    using lx lw by (simp add: tp_adjust_def Let_def nth_append)
  have adj_f: "tp_n (tp_adjust p xs ys) = tp_n p" "tp_eta (tp_adjust p xs ys) = tp_eta p"
    "length (tp_weights (tp_adjust p xs ys)) = n + 1"
    using lx lw by (simp_all add: tp_adjust_def Let_def)
  have rng: "(pred + 1) / 2 \<in> {0, 1 / 2, 1}" "((pred + 1) / 2 \<in> {0, 1} \<longleftrightarrow> score \<noteq> 0)"
    unfolding pred_def by (simp_all add: sgn_real_def)
  have "\<exists>p'. tp_predict_and_update p X y = Inr (p', (pred + 1) / 2)
           \<and> tp_n p' = tp_n p \<and> tp_eta p' = tp_eta p
           \<and> length (tp_weights p') = n + 1
           \<and> (pred \<noteq> of_int ys \<longrightarrow>
                 (\<forall>i<n. tp_weights p' ! i = tp_weights p ! i + tp_eta p * of_int ys * (xs ! i))
                 \<and> tp_weights p' ! n = tp_weights p ! n + tp_eta p * of_int ys)
           \<and> (pred = of_int ys \<longrightarrow> p' = p)
           \<and> (pred + 1) / 2 \<in> {0, 1 / 2, 1}
           \<and> ((pred + 1) / 2 \<in> {0, 1} \<longleftrightarrow> score \<noteq> 0)"
    unfolding eq using adj_i adj_n adj_f rng lw by (cases "pred = of_int ys") simp_all
  then show ?thesis
    unfolding Let_def xs_def ys_def score_def pred_def .
qed

lemma tp_predict_and_update_spec_example:
  "tp_ok 1 \<lparr>tp_n = 1, tp_eta = 1, tp_weights = [-1, 1]\<rparr> \<and> length [0::real] = 1
   \<and> tp_predict_and_update \<lparr>tp_n = 1, tp_eta = 1, tp_weights = [-1, 1]\<rparr> [0] 1
       = Inr (\<lparr>tp_n = 1, tp_eta = 1, tp_weights = [-1, 1]\<rparr>, 1)"
proof -
  have a: "tp_ok 1 \<lparr>tp_n = 1, tp_eta = 1, tp_weights = [-1, 1]\<rparr>" by (simp add: tp_ok_def)
  have b: "length [0::real] = 1" by simp
  from tp_predict_and_update_spec[OF a b, of 1] a b show ?thesis
    by (simp add: Let_def)
qed

lemma call_cases:
  assumes snd: "sound_class I n pau" and inv: "bp_inv I n s"
  obtains
    (untagged) "\<not> truthy tag"
      "call pau s c tag = Inr (s\<lparr>global_history := bit_of c # butlast (global_history s)\<rparr>, c)"
  | (tagged) t perc d where "tag = Some t" "t \<noteq> []"
      "pau (get_perceptron s t) (global_history s) (int_of_bool c) = Inr (perc, d)"
      "call pau s c tag =
         Inr ((record_stats (s\<lparr>total := (total s)(t := total s t + 1),
                                perceptrons := AList.update t perc (perceptrons s)\<rparr>) t c d)
                \<lparr>global_history := bit_of c # butlast (global_history s)\<rparr>, c)"
proof (cases "truthy tag")
  case False
  from inv have "global_history s \<noteq> []" by (auto simp: bp_inv_def)
  with False untagged show ?thesis by (simp add: call_untagged update_history_push)
next
  case True
  then obtain t where t: "tag = Some t" "t \<noteq> []" by (cases tag) auto
  from inv have len: "length (global_history s) = n" and ne: "global_history s \<noteq> []"
    by (auto simp: bp_inv_def)
  from snd get_perceptron_inv[OF inv] len obtain perc d where
    pau: "pau (get_perceptron s t) (global_history s) (int_of_bool c) = Inr (perc, d)"
    unfolding sound_class_def by blast
  have "pau (get_perceptron s (the tag)) (global_history s) (int_of_bool c) = Inr (perc, d)"
    using pau t by simp
  from call_tagged_ok[of tag pau s c perc d, OF True this] ne t
  have "call pau s c tag =
         Inr ((record_stats (s\<lparr>total := (total s)(t := total s t + 1),
                                perceptrons := AList.update t perc (perceptrons s)\<rparr>) t c d)
                \<lparr>global_history := bit_of c # butlast (global_history s)\<rparr>, c)"
    by (simp add: update_history_push)
  with tagged t pau show ?thesis by blast
qed

lemma record_stats_correct:
  "correct (record_stats s t c d) u =
     (if u = t \<and> of_int (int_of_bool c) = d then correct s u + 1 else correct s u)"
  by (simp add: record_stats_def Let_def)

lemma record_stats_moving:
  "moving_accuracy (record_stats s t c d) u =
     (if u = t then moving_accuracy s u * (9 / 10) + (if of_int (int_of_bool c) = d then 1 / 10 else 0)
      else moving_accuracy s u)"
  by (simp add: record_stats_def Let_def)

lemma call_counters:
  assumes snd: "sound_class I n pau" and inv: "bp_inv I n s"
  shows "\<exists>s'. call pau s c tag = Inr (s', c) \<and> bp_inv I n s'
           \<and> (\<forall>t. total s' t = total s t + int (counted_calls t [(c, tag)])
                 \<and> correct s t \<le> correct s' t
                 \<and> correct s' t \<le> correct s t + int (counted_calls t [(c, tag)]))"
proof -
  from call_inv[OF snd inv, of c tag] obtain s' where
    c: "call pau s c tag = Inr (s', c)" and i: "bp_inv I n s'" by blast
  have "total s' t = total s t + int (counted_calls t [(c, tag)])
        \<and> correct s t \<le> correct s' t
        \<and> correct s' t \<le> correct s t + int (counted_calls t [(c, tag)])" for t
  proof (rule call_cases[OF snd inv, of tag c])
    assume "\<not> truthy tag"
      and "call pau s c tag = Inr (s\<lparr>global_history := bit_of c # butlast (global_history s)\<rparr>, c)"
    with c show ?thesis by (cases tag) (auto simp: counted_calls_def)
  next
    fix u perc d
    assume "tag = Some u" "u \<noteq> []"
      and "call pau s c tag =
         Inr ((record_stats (s\<lparr>total := (total s)(u := total s u + 1),
                                perceptrons := AList.update u perc (perceptrons s)\<rparr>) u c d)
                \<lparr>global_history := bit_of c # butlast (global_history s)\<rparr>, c)"
    with c show ?thesis by (auto simp: counted_calls_def record_stats_correct)
  qed
  with c i show ?thesis by blast
qed

lemma counted_calls_nonempty: "t \<noteq> [] \<Longrightarrow> counted_calls t obs = tagged_calls t obs"
  by (induction obs) (auto simp: counted_calls_def tagged_calls_def)

lemma counted_calls_empty: "counted_calls [] obs = 0"
proof -
  have "(truthy (snd ob) \<and> snd ob = Some []) = False" for ob :: "bool \<times> string option"
    by (cases "snd ob") auto
  then show ?thesis by (simp add: counted_calls_def)
qed

lemma counted_calls_Cons: "counted_calls t (ob # obs) = counted_calls t [ob] + counted_calls t obs"
  by (cases "truthy (snd ob) \<and> snd ob = Some t") (simp_all add: counted_calls_def del: truthy.simps)

lemma run_counters:
  assumes snd: "sound_class I n pau"
  shows "bp_inv I n s \<Longrightarrow>
         \<exists>s'. run pau s obs = Inr s'
           \<and> (\<forall>t. total s' t = total s t + int (counted_calls t obs)
                 \<and> correct s t \<le> correct s' t
                 \<and> correct s' t \<le> correct s t + int (counted_calls t obs))"
proof (induction obs arbitrary: s)
  case Nil
  then show ?case by (simp add: counted_calls_def)
next
  case (Cons ob obs)
  obtain c tag where ob: "ob = (c, tag)" by (cases ob)
  from call_counters[OF snd Cons.prems, of c tag] obtain s1 where
    c1: "call pau s c tag = Inr (s1, c)" and i1: "bp_inv I n s1"
    and k1: "\<And>t. total s1 t = total s t + int (counted_calls t [(c, tag)])"
            "\<And>t. correct s t \<le> correct s1 t"
            "\<And>t. correct s1 t \<le> correct s t + int (counted_calls t [(c, tag)])" by blast
  from Cons.IH[OF i1] obtain s' where
    r: "run pau s1 obs = Inr s'"
    and k: "\<And>t. total s' t = total s1 t + int (counted_calls t obs)"
           "\<And>t. correct s1 t \<le> correct s' t"
           "\<And>t. correct s' t \<le> correct s1 t + int (counted_calls t obs)" by blast
  have "total s' t = total s t + int (counted_calls t (ob # obs))
        \<and> correct s t \<le> correct s' t
        \<and> correct s' t \<le> correct s t + int (counted_calls t (ob # obs))" for t
    using k1(1)[of t] k1(2)[of t] k1(3)[of t] k(1)[of t] k(2)[of t] k(3)[of t]
    unfolding ob counted_calls_Cons[of t "(c, tag)" obs] by linarith
  then show ?case using c1 r ob by simp
qed

lemma call_moving:
  assumes snd: "sound_class I n pau" and inv: "bp_inv I n s"
    and bnd: "\<forall>t. 0 \<le> moving_accuracy s t \<and> moving_accuracy s t \<le> 1"
  shows "\<exists>s'. call pau s c tag = Inr (s', c) \<and> bp_inv I n s'
           \<and> (\<forall>t. 0 \<le> moving_accuracy s' t \<and> moving_accuracy s' t \<le> 1)"
proof -
  from call_inv[OF snd inv, of c tag] obtain s' where
    c: "call pau s c tag = Inr (s', c)" and i: "bp_inv I n s'" by blast
  have "0 \<le> moving_accuracy s' t \<and> moving_accuracy s' t \<le> 1" for t
  proof (rule call_cases[OF snd inv, of tag c])
    assume "\<not> truthy tag"
      and "call pau s c tag = Inr (s\<lparr>global_history := bit_of c # butlast (global_history s)\<rparr>, c)"
    with c bnd show ?thesis by auto
  next
    fix u perc d
    assume "tag = Some u" "u \<noteq> []"
      and "call pau s c tag =
         Inr ((record_stats (s\<lparr>total := (total s)(u := total s u + 1),
                                perceptrons := AList.update u perc (perceptrons s)\<rparr>) u c d)
                \<lparr>global_history := bit_of c # butlast (global_history s)\<rparr>, c)"
    with c have m: "moving_accuracy s' t =
       (if t = u then moving_accuracy s t * (9 / 10) + (if of_int (int_of_bool c) = d then 1 / 10 else 0)
        else moving_accuracy s t)"
      by (auto simp: record_stats_moving)
    from bnd have "0 \<le> moving_accuracy s t" "moving_accuracy s t \<le> 1" by auto
    then show ?thesis unfolding m by auto
  qed
  with c i show ?thesis by blast
qed

lemma run_moving:
  assumes snd: "sound_class I n pau"
  shows "bp_inv I n s \<Longrightarrow> \<forall>t. 0 \<le> moving_accuracy s t \<and> moving_accuracy s t \<le> 1 \<Longrightarrow>
         \<exists>s'. run pau s obs = Inr s'
           \<and> (\<forall>t. 0 \<le> moving_accuracy s' t \<and> moving_accuracy s' t \<le> 1)"
proof (induction obs arbitrary: s)
  case Nil
  then show ?case by simp
next
  case (Cons ob obs)
  obtain c tag where ob: "ob = (c, tag)" by (cases ob)
  from call_moving[OF snd Cons.prems, of c tag] obtain s1 where
    c1: "call pau s c tag = Inr (s1, c)" and i1: "bp_inv I n s1"
    and b1: "\<forall>t. 0 \<le> moving_accuracy s1 t \<and> moving_accuracy s1 t \<le> 1" by blast
  from Cons.IH[OF i1 b1] c1 ob show ?case by simp
qed

lemma call_tagged_result:
  assumes t: "t \<noteq> []" and ne: "global_history s \<noteq> []"
    and pau: "pau (get_perceptron s t) (global_history s) (int_of_bool c) = Inr (perc, d)"
  shows "call pau s c (Some t) =
         Inr ((record_stats (s\<lparr>total := (total s)(t := total s t + 1),
                                perceptrons := AList.update t perc (perceptrons s)\<rparr>) t c d)
                \<lparr>global_history := bit_of c # butlast (global_history s)\<rparr>, c)"
proof -
  have tr: "truthy (Some t)" using t by simp
  have "pau (get_perceptron s (the (Some t))) (global_history s) (int_of_bool c) = Inr (perc, d)"
    using pau by simp
  from call_tagged_ok[of "Some t" pau s c perc d, OF tr this] ne show ?thesis
    by (simp add: update_history_push)
qed

lemma record_stats_logs:
  "taken_history (record_stats s t c d) t = taken_history s t @ [int_of_bool c]"
  "prediction_history (record_stats s t c d) t = prediction_history s t @ [if d \<noteq> 0 then 1 else 0]"
  by (simp_all add: record_stats_def Let_def int_of_bool_def)

lemma accuracies_loop_zero:
  "\<exists>k \<in> set keys. total s k = 0 \<Longrightarrow> accuracies_loop s keys acc = Inl ZeroDivisionError"
  by (induction keys arbitrary: acc) auto

lemma accuracies_loop_ok:
  "\<forall>k \<in> set keys. total s k \<noteq> 0 \<Longrightarrow>
   \<exists>acc'. accuracies_loop s keys acc = Inr acc'
     \<and> (\<forall>k. map_of acc' k =
            (if k \<in> set keys then Some (of_int (correct s k) / of_int (total s k))
             else map_of acc k))"
proof (induction keys arbitrary: acc)
  case Nil
  then show ?case by simp
next
  case (Cons key keys)
  let ?acc1 = "AList.update key (of_int (correct s key) / of_int (total s key)) acc"
  from Cons.prems have "\<forall>k \<in> set keys. total s k \<noteq> 0" and nz: "total s key \<noteq> 0" by auto
  from Cons.IH[OF this(1), of ?acc1] obtain acc' where
    l: "accuracies_loop s keys ?acc1 = Inr acc'"
    and m: "\<And>k. map_of acc' k =
            (if k \<in> set keys then Some (of_int (correct s k) / of_int (total s k))
             else map_of ?acc1 k)" by blast
  have "map_of acc' k =
            (if k \<in> set (key # keys) then Some (of_int (correct s k) / of_int (total s k))
             else map_of acc k)" for k
    unfolding m[of k] by (simp add: update_conv')
  with l nz show ?case by simp
qed

lemma bind_err_Inr_iff:
  "bind_err r f = Inr v \<longleftrightarrow> (\<exists>a. r = Inr a \<and> f a = Inr v)"
  by (cases r) simp_all

lemma bind_err_Inl_iff:
  "bind_err r f = Inl e \<longleftrightarrow> (r = Inl e \<or> (\<exists>a. r = Inr a \<and> f a = Inl e))"
  by (cases r) simp_all

lemma learning_round_fields:
  assumes "learning_round choice p = Inr p'"
  shows "rounds p' = rounds p + 1 \<and> bs p' = bs p \<and> lamb p' = lamb p
       \<and> example_history_x p' = example_history_x p \<and> example_history_y p' = example_history_y p"
  using assms
  by (auto simp: learning_round_def Let_def bind_err_Inr_iff split: if_splits prod.splits)

lemma lp_step:
  assumes "lp_predict_and_update choice p X y = Inr (p', d)"
  shows "rounds p' = rounds p + (if count_trigger p then 1 else 0)
       \<and> bs p' = bs p
       \<and> (d = 0 \<or> d = 1)
       \<and> (d \<noteq> of_int y \<longrightarrow> example_history_x p' = example_history_x p @ [X]
                             \<and> example_history_y p' = example_history_y p @ [y])
       \<and> (d = of_int y \<longrightarrow> example_history_x p' = example_history_x p
                             \<and> example_history_y p' = example_history_y p)"
proof -
  let ?p0 = "p\<lparr>lp_net := zero_grad (lp_net p)\<rparr>"
  have ct: "count_trigger ?p0 = count_trigger p" by (simp add: count_trigger_def)
  from assms obtain lt pred p1 where
    p1: "(if count_trigger p then learning_round choice ?p0 else Inr ?p0) = Inr p1"
    and res: "(p', d) =
      (let p2 = p1\<lparr>lp_net := sgd_step (backward (lp_net p1) X (sgn (pred - of_int y)))\<rparr>;
           decision = (if pred + lt > 1 / 2 then 1 else 0);
           p3 = (if decision \<noteq> y
                 then p2\<lparr>example_history_x := example_history_x p2 @ [X],
                         example_history_y := example_history_y p2 @ [y]\<rparr>
                 else p2)
       in (p3, of_int decision))"
    unfolding lp_predict_and_update_def Let_def bind_err_Inr_iff ct by auto
  have f1: "rounds p1 = rounds p + (if count_trigger p then 1 else 0) \<and> bs p1 = bs p
          \<and> example_history_x p1 = example_history_x p \<and> example_history_y p1 = example_history_y p"
  proof (cases "count_trigger p")
    case True
    with p1 have "learning_round choice ?p0 = Inr p1" by simp
    from learning_round_fields[OF this] True show ?thesis by simp
  next
    case False
    with p1 show ?thesis by auto
  qed
  show ?thesis
  proof (cases "pred + lt > 1 / 2")
    case True
    with res f1 show ?thesis by (cases "y = 1") (auto simp: Let_def)
  next
    case False
    with res f1 show ?thesis by (cases "y = 0") (auto simp: Let_def)
  qed
qed

lemma lp_run_mispredicted:
  "lp_run choice p obs = Inr res \<Longrightarrow>
   list_all2 (\<lambda>(p', d) (X, y). d \<noteq> of_int y) res obs \<Longrightarrow>
   length res = length obs
   \<and> (\<forall>i<length obs.
         rounds (fst (res ! i)) = rounds p + count_fires (length (example_history_x p)) (bs p) (Suc i)
         \<and> length (example_history_x (fst (res ! i))) = length (example_history_x p) + Suc i)"
proof (induction obs arbitrary: p res)
  case Nil
  then show ?case by simp
next
  case (Cons ob obs)
  obtain X y where ob: "ob = (X, y)" by (cases ob)
  from Cons.prems(1) obtain p1 d1 res1 where
    s1: "lp_predict_and_update choice p X y = Inr (p1, d1)"
    and r1: "lp_run choice p1 obs = Inr res1" and res: "res = (p1, d1) # res1"
    unfolding ob by (auto simp: bind_err_Inr_iff)
  from Cons.prems(2) res ob have mis: "d1 \<noteq> of_int y"
    and all1: "list_all2 (\<lambda>(p', d) (X, y). d \<noteq> of_int y) res1 obs" by auto
  from lp_step[OF s1] mis have
    f: "rounds p1 = rounds p + (if count_trigger p then 1 else 0)" "bs p1 = bs p"
       "length (example_history_x p1) = length (example_history_x p) + 1" by auto
  from Cons.IH[OF r1 all1] have
    len: "length res1 = length obs"
    and ih: "\<And>i. i < length obs \<Longrightarrow>
         rounds (fst (res1 ! i)) = rounds p1 + count_fires (length (example_history_x p1)) (bs p1) (Suc i)
         \<and> length (example_history_x (fst (res1 ! i))) = length (example_history_x p1) + Suc i"
    by auto
  have "rounds (fst (res ! i)) = rounds p + count_fires (length (example_history_x p)) (bs p) (Suc i)
         \<and> length (example_history_x (fst (res ! i))) = length (example_history_x p) + Suc i"
    if "i < length (ob # obs)" for i
  proof (cases i)
    case 0
    with res f show ?thesis by (simp add: count_trigger_def)
  next
    case (Suc k)
    with that have "k < length obs" by simp
    from ih[OF this] Suc res f show ?thesis by (simp add: count_trigger_def)
  qed
  with len res show ?case by simp
qed

lemma count_fires_none: "l + m \<le> b \<Longrightarrow> count_fires l b m = 0"
  by (induction m arbitrary: l) auto

lemma count_fires_first: "count_fires 0 b (Suc b) = 1"
proof -
  have "count_fires l b (Suc m) = (if (l + m + 1) mod (b + 1) = 0 then 1 else 0) + count_fires l b m"
    for l m
    by (induction m arbitrary: l) (simp_all add: add.commute add.left_commute)
  from this[of 0 b] show ?thesis by (simp add: count_fires_none)
qed

lemma warm_0: "BpLambdaPerceptron zero_weight 0 0 1 1 = warm 0"
  by (simp add: BpLambdaPerceptron_def ClassicalPerceptron_def warm_def zero_weight_def)

lemma list_index_replicate: "0 < k \<Longrightarrow> list_index (replicate k x) x = 0"
  by (cases k) simp_all

lemma warm_lambda_term: "lambda_term_of (warm k\<lparr>lp_net := nt\<rparr>) [0] = Inr 0"
  by (cases "k = 0") (simp_all add: lambda_term_of_def warm_def list_index_replicate)

lemma warm_step:
  assumes "k < 16"
  shows "lp_predict_and_update choice (warm k) [0] 1 = Inr (warm (Suc k), 0)"
proof -
  have ct: "\<not> count_trigger (warm k\<lparr>lp_net := zero_grad (lp_net (warm k))\<rparr>)"
    using assms by (simp add: count_trigger_def warm_def)
  have fw: "forward (zero_grad (lp_net (warm k))) [0] = Inr (of_nat k / 1000)"
    by (simp add: forward_def zero_grad_def warm_def)
  have lt: "real k / 1000 \<le> 1 / 2" "sgn (real k / 1000 - 1) = - 1"
    using assms by simp_all
  show ?thesis
    unfolding lp_predict_and_update_def Let_def warm_lambda_term
    using ct lt
    apply (simp add: fw)
    apply (simp add: warm_def sgd_step_def backward_def zero_grad_def lr_def replicate_append_same)
    done
qed

lemma warm_last_step:
  "lp_predict_and_update first_indices (warm 16) [0] 1 = Inr (warm_final, 0)"
  by code_simp

lemma warm_run:
  "k + m = 17 \<Longrightarrow> lp_run first_indices (warm k) (replicate m ([0], 1)) = Inr (warm_res k m)"
proof (induction m arbitrary: k)
  case 0
  then show ?case by simp
next
  case (Suc m)
  show ?case
  proof (cases "k < 16")
    case True
    from Suc.prems have "Suc k + m = 17" by simp
    from Suc.IH[OF this] warm_step[OF True, of first_indices] True show ?thesis by simp
  next
    case False
    with Suc.prems have "k = 16" "m = 0" by simp_all
    with warm_last_step show ?thesis by simp
  qed
qed

lemma warm_res_mispredicted:
  "list_all2 (\<lambda>(p', d) (X, y). d \<noteq> of_int y) (warm_res k m) (replicate m ([0], 1))"
  by (induction m arbitrary: k) simp_all

lemma forward_not_insufficient: "forward nt x \<noteq> Inl InsufficientData"
  by (simp add: forward_def)

lemma forward_all_not_insufficient: "forward_all nt xs \<noteq> Inl InsufficientData"
  by (induction xs) (auto simp: bind_err_Inl_iff forward_not_insufficient)

lemma lambda_term_not_insufficient: "lambda_term_of p X \<noteq> Inl InsufficientData"
  by (simp add: lambda_term_of_def Let_def)

lemma count_trigger_enough:
  assumes "count_trigger p"
  shows "bs p \<le> length (example_history_x p)"
proof -
  from assms have "(bs p + 1) dvd (length (example_history_x p) + 1)"
    by (simp add: count_trigger_def mod_eq_0_iff_dvd)
  then have "bs p + 1 \<le> length (example_history_x p) + 1"
    by (rule dvd_imp_le) simp
  then show ?thesis by simp
qed

lemma learning_round_insufficient:
  "learning_round choice p = Inl InsufficientData \<longleftrightarrow> length (example_history_x p) < bs p"
  by (auto simp: learning_round_def Let_def bind_err_Inl_iff forward_all_not_insufficient
           split: prod.splits)

lemma step_weight_length:
  "length (grad_weight nt) = length (fc1_weight nt) \<Longrightarrow> length x = length (fc1_weight nt) \<Longrightarrow>
   length (fc1_weight (sgd_step (backward nt x g))) = length (fc1_weight nt)"
  by (simp add: sgd_step_def backward_def)

lemma zero_grad_lengths [simp]:
  "length (grad_weight (zero_grad nt)) = length (fc1_weight nt)"
  "fc1_weight (zero_grad nt) = fc1_weight nt"
  by (simp_all add: zero_grad_def)

lemma bp_sound: "sound_class (bp_ok n) n bp_predict_and_update"
  unfolding sound_class_def
proof (intro allI impI)
  fix p :: bp_perceptron and X :: "real list" and y :: int
  assume h: "bp_ok n p \<and> length X = n"
  then have fw: "forward (zero_grad (bp_net p)) X
                 = Inr (sum_list (map2 (*) (fc1_weight (bp_net p)) X) + fc1_bias (zero_grad (bp_net p)))"
    by (simp add: forward_def bp_ok_def)
  from h step_weight_length[of "zero_grad (bp_net p)" X]
  show "\<exists>p' d. bp_predict_and_update p X y = Inr (p', d) \<and> bp_ok n p'"
    by (simp add: bp_predict_and_update_def Let_def fw bp_ok_def)
qed

lemma BpPerceptron_ok: "bp_ok n (BpPerceptron w0 b0 n)"
  by (simp add: bp_ok_def BpPerceptron_def ClassicalPerceptron_def)

lemma forward_all_ok:
  "list_all (\<lambda>x. length x = length (fc1_weight nt)) xs \<Longrightarrow> \<exists>vs. forward_all nt xs = Inr vs \<and> length vs = length xs"
  by (induction xs) (auto simp: forward_def)

lemma backward_batch_lengths:
  "length (grad_weight nt) = length (fc1_weight nt) \<Longrightarrow>
   list_all (\<lambda>(x, v). length x = length (fc1_weight nt)) batch \<Longrightarrow>
   length (grad_weight (backward_batch nt k batch)) = length (fc1_weight nt)
   \<and> fc1_weight (backward_batch nt k batch) = fc1_weight nt"
proof (induction batch arbitrary: nt)
  case Nil
  then show ?case by simp
next
  case (Cons b batch)
  obtain x pred y where b: "b = (x, pred, y)" by (cases b)
  from Cons.prems b have
    "length (grad_weight (backward nt x (sgn (pred - y) / k))) = length (fc1_weight (backward nt x (sgn (pred - y) / k)))"
    "list_all (\<lambda>(u, v). length u = length (fc1_weight (backward nt x (sgn (pred - y) / k)))) batch"
    "fc1_weight (backward nt x (sgn (pred - y) / k)) = fc1_weight nt"
    by (simp_all add: backward_def)
  from Cons.IH[OF this(1,2)] this(3) b show ?case by simp
qed

lemma learning_round_ok:
  assumes vs: "valid_sampler choice" and ok: "lp_ok n p"
    and g: "length (grad_weight (lp_net p)) = n"
    and enough: "bs p \<le> length (example_history_x p)"
  shows "\<exists>p'. learning_round choice p = Inr p' \<and> lp_ok n p'
              \<and> length (grad_weight (lp_net p')) = n"
proof -
  obtain idxs r' where ch: "choice (rng p) (length (example_history_x p)) (bs p) = (idxs, r')"
    by (cases "choice (rng p) (length (example_history_x p)) (bs p)")
  from vs enough ch have ix: "list_all (\<lambda>i. i < length (example_history_x p)) idxs"
    unfolding valid_sampler_def by (metis fst_conv)
  from ok have len: "length (fc1_weight (lp_net p)) = n"
    "length (example_history_x p) = length (example_history_y p)"
    "list_all (\<lambda>x. length x = n) (example_history_x p)"
    by (simp_all add: lp_ok_def)
  have rect: "list_all (\<lambda>x. length x = length (hd (example_history_x p))) (example_history_x p)"
    using len(3) by (cases "example_history_x p") (auto simp: list_all_iff)
  let ?bx = "map (\<lambda>i. example_history_x p ! i) idxs"
  let ?by = "map (\<lambda>i. real_of_int (example_history_y p ! i)) idxs"
  let ?nt0 = "zero_grad (lp_net p)"
  have bxl: "list_all (\<lambda>x. length x = n) ?bx"
    using ix len(3) by (auto simp: list_all_iff)
  then have "list_all (\<lambda>x. length x = length (fc1_weight ?nt0)) ?bx" using len(1) by simp
  from forward_all_ok[OF this] obtain preds where
    fa: "forward_all ?nt0 ?bx = Inr preds" by blast
  have zl: "list_all (\<lambda>(x, v). length x = length (fc1_weight ?nt0)) (zip ?bx (zip preds ?by))"
    using bxl len(1) by (auto simp: list_all_iff dest!: set_zip_leftD)
  have gl: "length (grad_weight ?nt0) = length (fc1_weight ?nt0)" by simp
  from backward_batch_lengths[OF gl zl, of "of_nat (length idxs)"] len(1)
  have bl: "length (grad_weight (backward_batch ?nt0 (of_nat (length idxs)) (zip ?bx (zip preds ?by)))) = n"
    "fc1_weight (backward_batch ?nt0 (of_nat (length idxs)) (zip ?bx (zip preds ?by))) = fc1_weight (lp_net p)"
    by simp_all
  have "learning_round choice p =
          Inr (p\<lparr>lp_net := sgd_step (backward_batch ?nt0 (of_nat (length idxs)) (zip ?bx (zip preds ?by))),
                 rng := r', rounds := rounds p + 1\<rparr>)"
    using enough ch rect ix len(2) fa by (simp add: learning_round_def Let_def)
  moreover have "lp_ok n (p\<lparr>lp_net := sgd_step (backward_batch ?nt0 (of_nat (length idxs)) (zip ?bx (zip preds ?by))),
                 rng := r', rounds := rounds p + 1\<rparr>)"
    using len bl by (simp add: lp_ok_def sgd_step_def)
  moreover have "length (grad_weight (sgd_step (backward_batch ?nt0 (of_nat (length idxs)) (zip ?bx (zip preds ?by))))) = n"
    using bl by (simp add: sgd_step_def)
  ultimately show ?thesis by simp
qed

lemma list_index_less: "x \<in> set xs \<Longrightarrow> list_index xs x < length xs"
  by (induction xs) auto

lemma lambda_term_ok:
  "length (example_history_x p) = length (example_history_y p) \<Longrightarrow> \<exists>lt. lambda_term_of p X = Inr lt"
  using list_index_less[of X "example_history_x p"]
  by (simp add: lambda_term_of_def Let_def)

lemma lp_pau_ok:
  assumes vs: "valid_sampler choice" and ok: "lp_ok n p" and lx: "length X = n"
  shows "\<exists>p' d. lp_predict_and_update choice p X y = Inr (p', d) \<and> lp_ok n p'"
proof -
  let ?p0 = "p\<lparr>lp_net := zero_grad (lp_net p)\<rparr>"
  have ok0: "lp_ok n ?p0" and g0: "length (grad_weight (lp_net ?p0)) = n"
    using ok by (simp_all add: lp_ok_def)
  from ok0 lambda_term_ok[of ?p0 X] obtain lt where lt: "lambda_term_of ?p0 X = Inr lt"
    by (auto simp: lp_ok_def)
  from ok0 lx obtain pred where fw: "forward (lp_net ?p0) X = Inr pred"
    by (simp add: forward_def lp_ok_def)
  have "\<exists>p1. (if count_trigger ?p0 then learning_round choice ?p0 else Inr ?p0) = Inr p1
              \<and> lp_ok n p1 \<and> length (grad_weight (lp_net p1)) = n"
  proof (cases "count_trigger ?p0")
    case True
    from learning_round_ok[OF vs ok0 g0 count_trigger_enough[OF True]] True show ?thesis by simp
  next
    case False
    with ok0 g0 show ?thesis by simp
  qed
  then obtain p1 where
    p1: "(if count_trigger ?p0 then learning_round choice ?p0 else Inr ?p0) = Inr p1"
    and ok1: "lp_ok n p1" and g1: "length (grad_weight (lp_net p1)) = n" by blast
  let ?p2 = "p1\<lparr>lp_net := sgd_step (backward (lp_net p1) X (sgn (pred - of_int y)))\<rparr>"
  from ok1 g1 lx step_weight_length[of "lp_net p1" X "sgn (pred - of_int y)"]
  have ok2: "lp_ok n ?p2" by (simp add: lp_ok_def)
  then have ok3: "lp_ok n (?p2\<lparr>example_history_x := example_history_x ?p2 @ [X],
                               example_history_y := example_history_y ?p2 @ [y]\<rparr>)"
    using lx by (simp add: lp_ok_def)
  have "lp_predict_and_update choice p X y =
          Inr (if (if pred + lt > 1 / 2 then 1 else 0) \<noteq> y
               then ?p2\<lparr>example_history_x := example_history_x ?p2 @ [X],
                        example_history_y := example_history_y ?p2 @ [y]\<rparr>
               else ?p2, of_int (if pred + lt > 1 / 2 then 1 else 0))"
    unfolding lp_predict_and_update_def Let_def lt fw p1 bind_err_simps ..
  with ok2 ok3 show ?thesis by auto
qed

lemma lp_sound: "valid_sampler choice \<Longrightarrow> sound_class (lp_ok n) n (lp_predict_and_update choice)"
  unfolding sound_class_def using lp_pau_ok by blast

lemma BpLambdaPerceptron_ok: "lp_ok n (BpLambdaPerceptron w0 b0 seed lam n)"
  by (simp add: lp_ok_def BpLambdaPerceptron_def ClassicalPerceptron_def)

lemma first_indices_valid: "valid_sampler first_indices"
  by (simp add: valid_sampler_def first_indices_def list_all_iff)

lemma call_observed_keys:
  assumes snd: "sound_class I n pau" and inv: "bp_inv I n s" and ob: "observed_keys s"
  shows "\<exists>s'. call pau s c tag = Inr (s', c) \<and> bp_inv I n s' \<and> observed_keys s'"
proof -
  from call_inv[OF snd inv, of c tag] obtain s' where
    c: "call pau s c tag = Inr (s', c)" and i: "bp_inv I n s'" by blast
  have "observed_keys s'"
  proof (rule call_cases[OF snd inv, of tag c])
    assume "\<not> truthy tag"
      and "call pau s c tag = Inr (s\<lparr>global_history := bit_of c # butlast (global_history s)\<rparr>, c)"
    with c have "total s' = total s" "perceptrons s' = perceptrons s" by auto
    with ob show ?thesis by (simp add: observed_keys_def)
  next
    fix u perc d
    assume "tag = Some u" "u \<noteq> []"
      and "call pau s c tag =
         Inr ((record_stats (s\<lparr>total := (total s)(u := total s u + 1),
                                perceptrons := AList.update u perc (perceptrons s)\<rparr>) u c d)
                \<lparr>global_history := bit_of c # butlast (global_history s)\<rparr>, c)"
    with c have t: "total s' = (total s)(u := total s u + 1)"
      and p: "perceptrons s' = AList.update u perc (perceptrons s)" by auto
    from ob have "0 \<le> total s u" by (simp add: observed_keys_def)
    with ob show ?thesis
      unfolding observed_keys_def t p dom_update by auto
  qed
  with c i show ?thesis by blast
qed

lemma run_observed_keys:
  assumes snd: "sound_class I n pau"
  shows "bp_inv I n s \<Longrightarrow> observed_keys s \<Longrightarrow>
         \<exists>s'. run pau s obs = Inr s' \<and> observed_keys s'"
proof (induction obs arbitrary: s)
  case Nil
  then show ?case by simp
next
  case (Cons ob obs)
  obtain c tag where ob: "ob = (c, tag)" by (cases ob)
  from call_observed_keys[OF snd Cons.prems, of c tag] obtain s1 where
    c1: "call pau s c tag = Inr (s1, c)" and i1: "bp_inv I n s1" and o1: "observed_keys s1" by blast
  from Cons.IH[OF i1 o1] c1 ob show ?case by simp
qed

lemma get_accuracies_reachable:
  assumes "sound_class I n pau" and "I (mk n)" and "0 < n"
  shows "\<exists>s' acc. run pau (BranchPredictor n mk) obs = Inr s'
           \<and> get_accuracies s' = Inr (acc, moving_accuracy s')"
proof -
  have o: "observed_keys (BranchPredictor n mk)"
    by (simp add: observed_keys_def BranchPredictor_def)
  from run_observed_keys[OF assms(1) BranchPredictor_inv[OF assms(3), of I mk, OF assms(2)] o, of obs]
  obtain s' where r: "run pau (BranchPredictor n mk) obs = Inr s'" and o': "observed_keys s'" by blast
  from o' have "\<forall>k \<in> set (map fst (perceptrons s')). total s' k \<noteq> 0"
    by (auto simp: observed_keys_def)
  from accuracies_loop_ok[OF this, of "[]"] r show ?thesis
    by (auto simp: get_accuracies_def)
qed

section \<open>The claims\<close>

text \<open>
  C1. Pass-through: on a predictor built with a history length of at least one and a
  perceptron class whose \<open>predict_and_update\<close> returns, the call returns, for every
  condition and every tag (present, empty or absent), the condition it was given. The
  three classes of the source are such classes (\<open>tp_sound\<close>, \<open>bp_sound\<close>,
  \<open>lp_sound\<close>). With history length 0 the constructor succeeds and every call raises
  IndexError in \<open>update_history\<close>.
\<close>

theorem call_returns_condition:
  assumes "sound_class I n pau" and "bp_inv I n s"
  shows "\<exists>s'. call pau s condition tag = Inr (s', condition)"
  using call_inv[OF assms, of condition tag] by blast

theorem call_returns_condition_witness:
  "sound_class (tp_ok 2) 2 tp_predict_and_update
   \<and> bp_inv (tp_ok 2) 2 (BranchPredictor 2 (\<lambda>n. TruePerceptron n 1))
   \<and> (\<exists>s'. call tp_predict_and_update (BranchPredictor 2 (\<lambda>n. TruePerceptron n 1))
              True (Some ''loop'') = Inr (s', True))"
proof -
  have a: "sound_class (tp_ok 2) 2 tp_predict_and_update" by (rule tp_sound)
  have b: "bp_inv (tp_ok 2) 2 (BranchPredictor 2 (\<lambda>n. TruePerceptron n 1))"
    by (rule BranchPredictor_inv) (simp_all add: TruePerceptron_ok)
  from call_returns_condition[OF a b, of True "Some ''loop''"] a b show ?thesis by blast
qed

text \<open>
  C2. History invariant: from a fresh predictor with history length \<open>n > 0\<close>, every
  sequence of calls returns, the register then has length \<open>n\<close> and holds the outcomes
  newest first, padded with the initial zeros; once at least \<open>n\<close> outcomes were pushed,
  index \<open>i\<close> holds the outcome pushed \<open>i\<close> calls before the last one.
\<close>

theorem history_register:
  assumes "sound_class I n pau" and "I (mk n)" and "0 < n"
  shows "\<exists>s'. run pau (BranchPredictor n mk) obs = Inr s'
           \<and> length (global_history s') = n
           \<and> global_history s' = take n (rev (map (\<lambda>ob. bit_of (fst ob)) obs) @ replicate n 0)
           \<and> (n \<le> length obs \<longrightarrow>
                (\<forall>i<n. global_history s' ! i = bit_of (fst (obs ! (length obs - 1 - i)))))"
proof -
  from run_inv[OF assms(1) BranchPredictor_inv[OF assms(3), of I mk, OF assms(2)], of obs]
  obtain s' where r: "run pau (BranchPredictor n mk) obs = Inr s'" and i: "bp_inv I n s'"
    and h: "global_history s' = take n (rev (map (\<lambda>ob. bit_of (fst ob)) obs) @ replicate n 0)"
    by (auto simp: BranchPredictor_def)
  have "global_history s' ! i = bit_of (fst (obs ! (length obs - 1 - i)))"
    if "n \<le> length obs" "i < n" for i
    using that h by (simp add: rev_nth nth_append)
  with r i h show ?thesis by (auto simp: bp_inv_def)
qed

theorem history_register_witness:
  "\<exists>s'. run tp_predict_and_update (BranchPredictor 2 (\<lambda>n. TruePerceptron n 1))
           [(True, None), (False, Some ''a''), (True, Some ''b'')] = Inr s'
        \<and> global_history s' = [1, 0]"
proof -
  have a: "sound_class (tp_ok 2) 2 tp_predict_and_update" by (rule tp_sound)
  have b: "tp_ok 2 (TruePerceptron 2 1)" by (rule TruePerceptron_ok)
  from history_register[where I = "tp_ok 2" and n = 2 and pau = tp_predict_and_update
         and mk = "\<lambda>n. TruePerceptron n 1"
         and obs = "[(True, None), (False, Some ''a''), (True, Some ''b'')]"] a b
  show ?thesis by (auto simp: bit_of_def)
qed

text \<open>
  C3. SignPerceptron update returns a 0/1 decision: not on a score of exactly zero. The
  first call on a fresh perceptron (all weights zero) takes the sign 0 of the score 0,
  updates the weights as for a misprediction and returns \<open>(0 + 1) / 2 = 1/2\<close>.
\<close>

theorem tp_first_call_returns_half:
  "tp_predict_and_update (TruePerceptron 1 1) [0] 1
     = Inr (\<lparr>tp_n = 1, tp_eta = 1, tp_weights = [-1, 1]\<rparr>, 1 / 2)
   \<and> (1 / 2 :: real) \<notin> {0, 1}"
  by (simp add: tp_predict_and_update_def tp_predict_def np_dot_def TruePerceptron_def
        tp_x_scale_def tp_y_scale_def tp_adjust_def Let_def)

text \<open>
  C4. The predictor sees the register as it was before the push: in a call with a
  non-empty tag \<open>t\<close>, \<open>predict_and_update\<close> is applied to the tag's perceptron, the
  register of the state the call started from and the condition as label. If it raises,
  the call raises the same error; if it returns, the call returns, the table holds the
  perceptron it returned, and only the register of the new state has the outcome, at
  index 0.
\<close>

theorem predictor_sees_history_before_push:
  assumes "t \<noteq> []" and "global_history s \<noteq> []"
  shows "(\<forall>e. pau (get_perceptron s t) (global_history s) (int_of_bool c) = Inl e
             \<longrightarrow> call pau s c (Some t) = Inl e)
       \<and> (\<forall>perc d. pau (get_perceptron s t) (global_history s) (int_of_bool c) = Inr (perc, d)
             \<longrightarrow> (\<exists>s'. call pau s c (Some t) = Inr (s', c)
                    \<and> map_of (perceptrons s') t = Some perc
                    \<and> global_history s' = bit_of c # butlast (global_history s)))"
proof (intro conjI allI impI)
  fix e
  assume "pau (get_perceptron s t) (global_history s) (int_of_bool c) = Inl e"
  then have "pau (get_perceptron s (the (Some t))) (global_history s) (int_of_bool c) = Inl e"
    by simp
  from call_tagged_err[of "Some t" pau s c e, OF _ this] assms(1)
  show "call pau s c (Some t) = Inl e" by simp
next
  fix perc d
  assume "pau (get_perceptron s t) (global_history s) (int_of_bool c) = Inr (perc, d)"
  from call_tagged_result[where pau = pau and s = s and t = t and c = c and perc = perc and d = d,
         OF assms this]
  show "\<exists>s'. call pau s c (Some t) = Inr (s', c)
          \<and> map_of (perceptrons s') t = Some perc
          \<and> global_history s' = bit_of c # butlast (global_history s)"
    by (simp add: update_conv')
qed

text \<open>
  The witness uses a perceptron class that only logs the feature vectors it is given:
  after one call on the register \<open>[0, 0]\<close> with outcome True, the log holds \<open>[0, 0]\<close>
  and the register is \<open>[1, 0]\<close>.
\<close>

theorem predictor_sees_history_before_push_witness:
  "''a'' \<noteq> []
   \<and> global_history (BranchPredictor 2 (\<lambda>n. []) :: real list list branch_predictor) \<noteq> []
   \<and> (\<exists>s'. call (\<lambda>p X y. Inr (X # p, 0)) (BranchPredictor 2 (\<lambda>n. [])) True (Some ''a'')
              = Inr (s', True)
          \<and> map_of (perceptrons s') ''a'' = Some [[0, 0]]
          \<and> global_history s' = [1, 0])"
proof -
  have a: "''a'' \<noteq> []" by simp
  have b: "global_history (BranchPredictor 2 (\<lambda>n. []) :: real list list branch_predictor) \<noteq> []"
    by (simp add: BranchPredictor_def)
  have c: "(\<lambda>p X y. Inr (X # p, 0))
             (get_perceptron (BranchPredictor 2 (\<lambda>n. []) :: real list list branch_predictor) ''a'')
             (global_history (BranchPredictor 2 (\<lambda>n. []) :: real list list branch_predictor))
             (int_of_bool True)
           = (Inr ([[0, 0]], 0) :: error + (real list list \<times> real))"
    by (simp add: BranchPredictor_def get_perceptron_def numeral_2_eq_2)
  have d: "bit_of True # butlast (global_history (BranchPredictor 2 (\<lambda>n. []) :: real list list branch_predictor))
           = [1, 0]"
    by (simp add: BranchPredictor_def bit_of_def numeral_2_eq_2)
  from predictor_sees_history_before_push[OF a b, of "\<lambda>p X y. Inr (X # p, 0)" True] c d a b
  show ?thesis by simp
qed

text \<open>
  C5, as amended. Monotonic counters: from a well-formed state every sequence of calls
  returns. For every non-empty tag \<open>t\<close>, \<open>total[t]\<close> has then grown by exactly the
  number of calls that were given the tag \<open>t\<close> (calls without a tag or with another tag
  add nothing to it). The empty string passes for no tag at the guard \<open>if tag:\<close>, so
  the total of the empty tag never changes, however many calls are given it. For every
  tag, \<open>correct[t] \<le> total[t]\<close> is kept. A single call is the sequence of length one.
\<close>

theorem counters_monotone:
  assumes "sound_class I n pau" and "bp_inv I n s"
  shows "\<exists>s'. run pau s obs = Inr s'
           \<and> (\<forall>t. (t \<noteq> [] \<longrightarrow> total s' t = total s t + int (tagged_calls t obs))
                 \<and> (t = [] \<longrightarrow> total s' t = total s t)
                 \<and> (correct s t \<le> total s t \<longrightarrow> correct s' t \<le> total s' t))"
proof -
  from run_counters[OF assms, of obs] obtain s' where
    r: "run pau s obs = Inr s'"
    and k: "\<And>t. total s' t = total s t + int (counted_calls t obs)"
           "\<And>t. correct s' t \<le> correct s t + int (counted_calls t obs)" by blast
  have "(t \<noteq> [] \<longrightarrow> total s' t = total s t + int (tagged_calls t obs))
        \<and> (t = [] \<longrightarrow> total s' t = total s t)
        \<and> (correct s t \<le> total s t \<longrightarrow> correct s' t \<le> total s' t)" for t
  proof (intro conjI impI)
    assume "t \<noteq> []"
    with k(1)[of t] show "total s' t = total s t + int (tagged_calls t obs)"
      by (simp add: counted_calls_nonempty)
  next
    assume "t = []"
    with k(1)[of t] show "total s' t = total s t" by (simp add: counted_calls_empty)
  next
    assume "correct s t \<le> total s t"
    with k(1)[of t] k(2)[of t] show "correct s' t \<le> total s' t" by linarith
  qed
  with r show ?thesis by blast
qed

theorem counters_monotone_witness:
  "\<exists>s'. run tp_predict_and_update example_predictor
           [(True, Some ''a''), (False, None), (True, Some ''a''), (True, Some ''b''),
            (True, Some [])] = Inr s'
        \<and> total s' ''a'' = 2 \<and> total s' ''b'' = 1 \<and> total s' ''c'' = 0 \<and> total s' [] = 0
        \<and> correct s' ''a'' \<le> total s' ''a''"
proof -
  let ?obs = "[(True, Some ''a''), (False, None), (True, Some ''a''), (True, Some ''b''),
               (True, Some [])]"
  have a: "sound_class (tp_ok 2) 2 tp_predict_and_update" by (rule tp_sound)
  have b: "bp_inv (tp_ok 2) 2 example_predictor"
    unfolding example_predictor_def
    by (rule BranchPredictor_inv) (simp_all add: TruePerceptron_ok)
  have c: "total example_predictor t = 0" "correct example_predictor t = 0" for t
    by (simp_all add: example_predictor_def BranchPredictor_def)
  have n: "tagged_calls ''a'' ?obs = 2" "tagged_calls ''b'' ?obs = 1" "tagged_calls ''c'' ?obs = 0"
    by (simp_all add: tagged_calls_def)
  from counters_monotone[OF a b, of ?obs] obtain s' where
    r: "run tp_predict_and_update example_predictor ?obs = Inr s'"
    and k: "\<And>t. (t \<noteq> [] \<longrightarrow> total s' t = total example_predictor t + int (tagged_calls t ?obs))
                 \<and> (t = [] \<longrightarrow> total s' t = total example_predictor t)
                 \<and> (correct example_predictor t \<le> total example_predictor t
                      \<longrightarrow> correct s' t \<le> total s' t)"
    by blast
  from k[of "''a''"] n(1) have ta: "total s' ''a'' = 2" "correct s' ''a'' \<le> total s' ''a''"
    unfolding c by simp_all
  from k[of "''b''"] n(2) have tb: "total s' ''b'' = 1" unfolding c by simp
  from k[of "''c''"] n(3) have tc: "total s' ''c'' = 0" unfolding c by simp
  from k[of "[]"] have te: "total s' [] = 0" unfolding c by simp
  from r ta tb tc te show ?thesis by blast
qed

text \<open>
  The claim as stated fails for the empty tag: two calls are given it, both return, and
  its total is what it was; the state differs only in the register.
\<close>

theorem empty_tag_total_counterexample:
  "run tp_predict_and_update example_predictor [(False, Some []), (True, Some [])]
     = Inr (example_predictor\<lparr>global_history := [1, 0]\<rparr>)
   \<and> total (example_predictor\<lparr>global_history := [1, 0]\<rparr>) [] = total example_predictor []
   \<and> tagged_calls [] [(False, Some []), (True, Some [])] = 2"
  by (simp add: call_def update_history_def np_roll1_def example_predictor_def
        BranchPredictor_def tagged_calls_def numeral_2_eq_2)

text \<open>
  C6. Replay trigger of the MarginPerceptron: an update that returns has run one
  mini-batch round if the buffer size plus one is a multiple of \<open>bs + 1\<close>, and none
  otherwise. On a fresh perceptron (\<open>bs = 16\<close>, empty buffer), in a sequence of 17
  updates that are all mispredicted, no round has run after any of the first 16 calls
  and exactly one has run after the 17th.
\<close>

theorem replay_round_trigger:
  "(lp_predict_and_update choice p X y = Inr (p', d) \<longrightarrow>
      rounds p' = rounds p
        + (if (length (example_history_x p) + 1) mod (bs p + 1) = 0 then 1 else 0))
   \<and> (lp_run choice (BpLambdaPerceptron w0 b0 seed lam n) obs = Inr res
        \<and> length obs = 17
        \<and> list_all2 (\<lambda>(p', d) (X, y). d \<noteq> of_int y) res obs \<longrightarrow>
        (\<forall>i<17. rounds (fst (res ! i)) = (if i < 16 then 0 else 1)))"
proof (intro conjI impI allI)
  assume "lp_predict_and_update choice p X y = Inr (p', d)"
  from lp_step[OF this]
  show "rounds p' = rounds p
        + (if (length (example_history_x p) + 1) mod (bs p + 1) = 0 then 1 else 0)"
    by (simp add: count_trigger_def)
next
  fix i :: nat
  assume h: "lp_run choice (BpLambdaPerceptron w0 b0 seed lam n) obs = Inr res
        \<and> length obs = 17
        \<and> list_all2 (\<lambda>(p', d) (X, y). d \<noteq> of_int y) res obs"
    and i: "i < 17"
  from h i lp_run_mispredicted[of choice "BpLambdaPerceptron w0 b0 seed lam n" obs res]
  have r: "rounds (fst (res ! i)) = count_fires 0 16 (Suc i)"
    by (simp add: BpLambdaPerceptron_def)
  show "rounds (fst (res ! i)) = (if i < 16 then 0 else 1)"
  proof (cases "i < 16")
    case True
    then have "count_fires 0 16 (Suc i) = 0" by (intro count_fires_none) simp
    with r True show ?thesis by simp
  next
    case False
    with i have "i = 16" by simp
    with r count_fires_first[of 16] show ?thesis by simp
  qed
qed

theorem replay_round_trigger_witness:
  "lp_predict_and_update first_indices (warm 16) [0] 1 = Inr (warm_final, 0)
   \<and> rounds warm_final = rounds (warm 16) + 1
   \<and> (\<exists>res. lp_run first_indices (BpLambdaPerceptron zero_weight 0 0 1 1) (replicate 17 ([0], 1))
               = Inr res
          \<and> length (replicate 17 ([0::real], 1::int)) = 17
          \<and> list_all2 (\<lambda>(p', d) (X, y). d \<noteq> of_int y) res (replicate 17 ([0], 1))
          \<and> (\<forall>i<17. rounds (fst (res ! i)) = (if i < 16 then 0 else 1)))"
proof -
  have run: "lp_run first_indices (BpLambdaPerceptron zero_weight 0 0 1 1) (replicate 17 ([0], 1))
               = Inr (warm_res 0 17)"
    unfolding warm_0 by (rule warm_run) simp
  have len: "length (replicate 17 ([0::real], 1::int)) = 17" by simp
  note mis = warm_res_mispredicted[of 0 17]
  note th = replay_round_trigger[of first_indices "warm 16" "[0]" 1 warm_final 0
              zero_weight 0 0 1 1 "replicate 17 ([0], 1)" "warm_res 0 17"]
  from th warm_last_step have 1: "rounds warm_final = rounds (warm 16) + 1"
    by (simp add: warm_def)
  from th run len mis
  have 2: "\<forall>i<17. rounds (fst (warm_res 0 17 ! i)) = (if i < 16 then 0 else 1)" by blast
  from warm_last_step 1 run len mis 2 show ?thesis by blast
qed

text \<open>
  C7. InsufficientData is unreachable: whenever the count trigger holds, the buffer has
  at least \<open>bs\<close> examples, so the sampler is never asked for more indices than there
  are; \<open>learning_round\<close> raises InsufficientData exactly on a buffer smaller than
  \<open>bs\<close>, and \<open>predict_and_update\<close> never does, on any state.
\<close>

theorem insufficient_data_unreachable:
  "(count_trigger p \<longrightarrow> bs p \<le> length (example_history_x p))
   \<and> (learning_round choice p = Inl InsufficientData \<longleftrightarrow> length (example_history_x p) < bs p)
   \<and> lp_predict_and_update choice p X y \<noteq> Inl InsufficientData"
proof (intro conjI impI)
  assume "count_trigger p"
  then show "bs p \<le> length (example_history_x p)" by (rule count_trigger_enough)
next
  show "learning_round choice p = Inl InsufficientData \<longleftrightarrow> length (example_history_x p) < bs p"
    by (rule learning_round_insufficient)
next
  let ?p0 = "p\<lparr>lp_net := zero_grad (lp_net p)\<rparr>"
  have lr: "learning_round choice ?p0 \<noteq> Inl InsufficientData" if "count_trigger ?p0"
    using count_trigger_enough[OF that] by (simp add: learning_round_insufficient)
  show "lp_predict_and_update choice p X y \<noteq> Inl InsufficientData"
    unfolding lp_predict_and_update_def Let_def
    using lr
    by (auto simp: bind_err_Inl_iff lambda_term_not_insufficient forward_not_insufficient
             split: if_splits)
qed

theorem insufficient_data_unreachable_witness:
  "count_trigger (warm 16) \<and> bs (warm 16) \<le> length (example_history_x (warm 16))
   \<and> learning_round first_indices (warm 15) = Inl InsufficientData
   \<and> lp_predict_and_update first_indices (warm 16) [0] 1 \<noteq> Inl InsufficientData"
proof -
  have a: "count_trigger (warm 16)" by (simp add: count_trigger_def warm_def)
  have b: "length (example_history_x (warm 15)) < bs (warm 15)" by (simp add: warm_def)
  from insufficient_data_unreachable[of "warm 16" first_indices "[0]" 1]
       insufficient_data_unreachable[of "warm 15" first_indices] a b
  show ?thesis by blast
qed

text \<open>
  C8. Accuracy query: \<open>get_accuracies\<close> divides \<open>correct[key]\<close> by \<open>total[key]\<close> for
  every key of the perceptron table. It fails with ZeroDivisionError if some key of the
  table has a total of 0, and otherwise returns, for exactly the keys of the table, the
  ratio (here an exact real), together with the moving accuracies.
\<close>

theorem get_accuracies_spec:
  "((\<exists>k \<in> fst ` set (perceptrons s). total s k = 0) \<longrightarrow> get_accuracies s = Inl ZeroDivisionError)
   \<and> ((\<forall>k \<in> fst ` set (perceptrons s). total s k \<noteq> 0) \<longrightarrow>
        (\<exists>acc. get_accuracies s = Inr (acc, moving_accuracy s)
           \<and> (\<forall>k. map_of acc k =
                 (if k \<in> fst ` set (perceptrons s)
                  then Some (of_int (correct s k) / of_int (total s k)) else None))))"
proof (intro conjI impI)
  assume "\<exists>k \<in> fst ` set (perceptrons s). total s k = 0"
  then have "\<exists>k \<in> set (map fst (perceptrons s)). total s k = 0" by simp
  from accuracies_loop_zero[OF this, of "[]"]
  show "get_accuracies s = Inl ZeroDivisionError" by (simp add: get_accuracies_def)
next
  assume "\<forall>k \<in> fst ` set (perceptrons s). total s k \<noteq> 0"
  then have "\<forall>k \<in> set (map fst (perceptrons s)). total s k \<noteq> 0" by simp
  from accuracies_loop_ok[OF this, of "[]"]
  show "\<exists>acc. get_accuracies s = Inr (acc, moving_accuracy s)
           \<and> (\<forall>k. map_of acc k =
                 (if k \<in> fst ` set (perceptrons s)
                  then Some (of_int (correct s k) / of_int (total s k)) else None))"
    by (auto simp: get_accuracies_def)
qed

theorem get_accuracies_spec_witness:
  "get_accuracies unobserved_state = Inl ZeroDivisionError
   \<and> (\<exists>acc. get_accuracies observed_state = Inr (acc, moving_accuracy observed_state)
         \<and> map_of acc ''a'' = Some (3 / 4) \<and> map_of acc ''b'' = None)"
proof -
  have a: "\<exists>k \<in> fst ` set (perceptrons unobserved_state). total unobserved_state k = 0"
    by (simp add: unobserved_state_def BranchPredictor_def)
  have b: "\<forall>k \<in> fst ` set (perceptrons observed_state). total observed_state k \<noteq> 0"
    by (simp add: observed_state_def)
  have c: "fst ` set (perceptrons observed_state) = {''a''}"
          "correct observed_state k = 3" "total observed_state k = 4" for k
    by (simp_all add: observed_state_def unobserved_state_def)
  from get_accuracies_spec[of unobserved_state] a
  have 1: "get_accuracies unobserved_state = Inl ZeroDivisionError" by blast
  from get_accuracies_spec[of observed_state] b obtain acc where
    "get_accuracies observed_state = Inr (acc, moving_accuracy observed_state)"
    "\<And>k. map_of acc k =
                 (if k \<in> fst ` set (perceptrons observed_state)
                  then Some (of_int (correct observed_state k) / of_int (total observed_state k)) else None)"
    by blast
  then have "get_accuracies observed_state = Inr (acc, moving_accuracy observed_state)
         \<and> map_of acc ''a'' = Some (3 / 4) \<and> map_of acc ''b'' = None"
    unfolding c by simp
  with 1 show ?thesis by blast
qed

text \<open>
  C9, as amended. A call with a non-empty tag \<open>t\<close> obtains the perceptron of \<open>t\<close>,
  runs \<open>predict_and_update\<close> on it with the condition as label, stores the perceptron
  returned and records the statistics of \<open>t\<close>: one more observation, the outcome and
  the prediction logged, the moving accuracy decayed, and on a hit one more correct
  prediction and 0.1 more moving accuracy. A call with no tag or with the empty tag
  (\<open>if tag:\<close> is false for both) only pushes the outcome into the history register.
\<close>

theorem tagged_call_spec:
  assumes "global_history s \<noteq> []"
  shows "(t \<noteq> [] \<longrightarrow>
           (\<forall>perc d. pau (get_perceptron s t) (global_history s) (int_of_bool c) = Inr (perc, d) \<longrightarrow>
              (\<exists>s'. call pau s c (Some t) = Inr (s', c)
                 \<and> map_of (perceptrons s') t = Some perc
                 \<and> total s' t = total s t + 1
                 \<and> taken_history s' t = taken_history s t @ [int_of_bool c]
                 \<and> prediction_history s' t = prediction_history s t @ [if d \<noteq> 0 then 1 else 0]
                 \<and> correct s' t = correct s t + (if of_int (int_of_bool c) = d then 1 else 0)
                 \<and> moving_accuracy s' t =
                     moving_accuracy s t * (9 / 10) + (if of_int (int_of_bool c) = d then 1 / 10 else 0))))
       \<and> (tag = None \<or> tag = Some [] \<longrightarrow>
            call pau s c tag = Inr (s\<lparr>global_history := bit_of c # butlast (global_history s)\<rparr>, c))"
proof (intro conjI impI allI)
  fix perc d
  assume t: "t \<noteq> []"
    and pau: "pau (get_perceptron s t) (global_history s) (int_of_bool c) = Inr (perc, d)"
  from call_tagged_result[where pau = pau and s = s and t = t and c = c and perc = perc and d = d,
         OF t assms pau]
  show "\<exists>s'. call pau s c (Some t) = Inr (s', c)
                 \<and> map_of (perceptrons s') t = Some perc
                 \<and> total s' t = total s t + 1
                 \<and> taken_history s' t = taken_history s t @ [int_of_bool c]
                 \<and> prediction_history s' t = prediction_history s t @ [if d \<noteq> 0 then 1 else 0]
                 \<and> correct s' t = correct s t + (if of_int (int_of_bool c) = d then 1 else 0)
                 \<and> moving_accuracy s' t =
                     moving_accuracy s t * (9 / 10) + (if of_int (int_of_bool c) = d then 1 / 10 else 0)"
    by (simp add: update_conv' record_stats_logs record_stats_correct record_stats_moving)
next
  assume "tag = None \<or> tag = Some []"
  then have "\<not> truthy tag" by auto
  from call_untagged[OF this, of pau s c] assms
  show "call pau s c tag = Inr (s\<lparr>global_history := bit_of c # butlast (global_history s)\<rparr>, c)"
    by (simp add: update_history_push)
qed

theorem tagged_call_spec_witness:
  "global_history example_predictor \<noteq> []
   \<and> (\<exists>s'. call tp_predict_and_update example_predictor True (Some ''loop'') = Inr (s', True)
          \<and> total s' ''loop'' = 1 \<and> taken_history s' ''loop'' = [1]
          \<and> prediction_history s' ''loop'' = [1] \<and> correct s' ''loop'' = 0
          \<and> moving_accuracy s' ''loop'' = 0)
   \<and> call tp_predict_and_update example_predictor True None
       = Inr (example_predictor\<lparr>global_history := [1, 0]\<rparr>, True)"
proof -
  have a: "global_history example_predictor \<noteq> []"
    by (simp add: example_predictor_def BranchPredictor_def)
  have h: "global_history example_predictor = [0, 0]"
    by (simp add: example_predictor_def BranchPredictor_def numeral_2_eq_2)
  have b: "tp_predict_and_update (get_perceptron example_predictor ''loop'')
             (global_history example_predictor) (int_of_bool True)
           = Inr (\<lparr>tp_n = 2, tp_eta = 1, tp_weights = [-1, -1, 1]\<rparr>, 1 / 2)"
    unfolding h
    by (simp add: example_predictor_def BranchPredictor_def get_perceptron_def int_of_bool_def
          tp_predict_and_update_def tp_predict_def np_dot_def TruePerceptron_def
          tp_x_scale_def tp_y_scale_def tp_adjust_def Let_def numeral_2_eq_2)
  have f: "total example_predictor t = 0" "taken_history example_predictor t = []"
    "prediction_history example_predictor t = []" "correct example_predictor t = 0"
    "moving_accuracy example_predictor t = 0" for t
    by (simp_all add: example_predictor_def BranchPredictor_def)
  note th = tagged_call_spec[OF a, of _ tp_predict_and_update True]
  have ne: "''loop'' \<noteq> []" by simp
  from th[of "''loop''" None, THEN conjunct1, rule_format, OF ne b]
  have 1: "\<exists>s'. call tp_predict_and_update example_predictor True (Some ''loop'') = Inr (s', True)
          \<and> total s' ''loop'' = 1 \<and> taken_history s' ''loop'' = [1]
          \<and> prediction_history s' ''loop'' = [1] \<and> correct s' ''loop'' = 0
          \<and> moving_accuracy s' ''loop'' = 0"
    unfolding f by (auto simp add: int_of_bool_def)
  from th[of "''loop''" None]
  have 2: "call tp_predict_and_update example_predictor True None
       = Inr (example_predictor\<lparr>global_history := [1, 0]\<rparr>, True)"
    unfolding h by (simp add: bit_of_def)
  from a 1 2 show ?thesis by blast
qed

text \<open>
  The claim as stated fails for the empty tag: the call returns, but no perceptron is
  obtained and no statistics are recorded; the state differs only in the register.
\<close>

theorem empty_tag_counterexample:
  "call tp_predict_and_update example_predictor True (Some '''')
     = Inr (example_predictor\<lparr>global_history := [1, 0]\<rparr>, True)
   \<and> total (example_predictor\<lparr>global_history := [1, 0]\<rparr>) '''' = 0
   \<and> perceptrons (example_predictor\<lparr>global_history := [1, 0]\<rparr>) = []"
  by (simp add: call_def update_history_def np_roll1_def example_predictor_def
        BranchPredictor_def numeral_2_eq_2)

text \<open>
  C10. Moving accuracy stays in \<open>[0, 1]\<close>: from a fresh predictor every sequence of
  calls returns, and every tag's moving accuracy (0 at the start, multiplied by 0.9 on
  each tagged call, plus 0.1 on a hit) is then between 0 and 1. The arithmetic is that
  of exact reals.
\<close>

theorem moving_accuracy_bounded:
  assumes "sound_class I n pau" and "I (mk n)" and "0 < n"
  shows "\<exists>s'. run pau (BranchPredictor n mk) obs = Inr s'
           \<and> (\<forall>t. 0 \<le> moving_accuracy s' t \<and> moving_accuracy s' t \<le> 1)"
proof -
  have "\<forall>t. 0 \<le> moving_accuracy (BranchPredictor n mk) t \<and> moving_accuracy (BranchPredictor n mk) t \<le> 1"
    by (simp add: BranchPredictor_def)
  from run_moving[OF assms(1) BranchPredictor_inv[OF assms(3), of I mk, OF assms(2)] this]
  show ?thesis .
qed

theorem moving_accuracy_bounded_witness:
  "\<exists>s'. run tp_predict_and_update (BranchPredictor 2 (\<lambda>n. TruePerceptron n 1))
           [(True, Some ''a''), (True, Some ''a''), (True, Some ''a'')] = Inr s'
        \<and> 0 \<le> moving_accuracy s' ''a'' \<and> moving_accuracy s' ''a'' \<le> 1"
proof -
  have a: "sound_class (tp_ok 2) 2 tp_predict_and_update" by (rule tp_sound)
  have b: "tp_ok 2 (TruePerceptron 2 1)" by (rule TruePerceptron_ok)
  from moving_accuracy_bounded[where I = "tp_ok 2" and n = 2 and pau = tp_predict_and_update
         and mk = "\<lambda>n. TruePerceptron n 1"
         and obs = "[(True, Some ''a''), (True, Some ''a''), (True, Some ''a'')]"] a b
  show ?thesis by auto
qed

end
